theory Spec2Isabelle
  imports Main
begin

section \<open>Python values used by createModel.py\<close>

text \<open>
  The script is straight-line Python over strings, lists of strings and floating-point
  numbers. Strings are modelled as \<open>string\<close> with one \<open>char\<close> per code point
  below 256 (the species table is read as Latin-1; the other tables are assumed to
  hold such characters only). The tables are assumed to hold no NUL character, which
  NumPy drops from the end of an array element. Every exception the script can raise
  is a value of \<open>py_error\<close>, and every fallible step returns \<open>py_error + 'a\<close>.
\<close>

datatype py_error =
  FileNotFoundError | ValueError | IndexError | KeyError | NameError | TypeError
  | AttributeError | ExternalError

definition bind_err :: "py_error + 'a \<Rightarrow> ('a \<Rightarrow> py_error + 'b) \<Rightarrow> py_error + 'b" where
  "bind_err m f = (case m of Inl e \<Rightarrow> Inl e | Inr x \<Rightarrow> f x)"

fun try_map :: "('a \<Rightarrow> py_error + 'b) \<Rightarrow> 'a list \<Rightarrow> py_error + 'b list" where
  "try_map f [] = Inr []"
| "try_map f (x # xs) =
     (case f x of Inl e \<Rightarrow> Inl e
      | Inr y \<Rightarrow> (case try_map f xs of Inl e \<Rightarrow> Inl e | Inr ys \<Rightarrow> Inr (y # ys)))"

definition nth_opt :: "'a list \<Rightarrow> nat \<Rightarrow> 'a option" where
  "nth_opt xs i = (if i < length xs then Some (xs ! i) else None)"

text \<open>\<open>xs[i]\<close> for a non-negative index: IndexError out of range.\<close>

definition index :: "'a list \<Rightarrow> nat \<Rightarrow> py_error + 'a" where
  "index xs i = (case nth_opt xs i of None \<Rightarrow> Inl IndexError | Some x \<Rightarrow> Inr x)"

abbreviation TAB :: char where "TAB \<equiv> CHR 0x09"
abbreviation LF :: char where "LF \<equiv> CHR 0x0A"
abbreviation CR :: char where "CR \<equiv> CHR 0x0D"

text \<open>\<open>str.isspace\<close> on the code points below 256.\<close>

definition isspace :: "char \<Rightarrow> bool" where
  "isspace c \<longleftrightarrow> c \<in> set [CHR 0x09, CHR 0x0A, CHR 0x0B, CHR 0x0C, CHR 0x0D,
     CHR 0x1C, CHR 0x1D, CHR 0x1E, CHR 0x1F, CHR 0x20, CHR 0x85, CHR 0xA0]"

text \<open>\<open>s.strip(chars)\<close> and \<open>s.strip()\<close>.\<close>

definition strip_chars :: "(char \<Rightarrow> bool) \<Rightarrow> string \<Rightarrow> string" where
  "strip_chars p s = rev (dropWhile p (rev (dropWhile p s)))"

definition strip :: "string \<Rightarrow> string" where
  "strip s = strip_chars isspace s"

text \<open>\<open>s.split(d)\<close> for a one-character separator: never empty, \<open>''''\<close> gives \<open>['''']\<close>.\<close>

fun split_on :: "char \<Rightarrow> string \<Rightarrow> string list" where
  "split_on d [] = [[]]"
| "split_on d (c # cs) =
     (if c = d then [] # split_on d cs
      else (case split_on d cs of [] \<Rightarrow> [[c]] | w # ws \<Rightarrow> (c # w) # ws))"

text \<open>\<open>sep.join(xs)\<close>.\<close>

fun join :: "string \<Rightarrow> string list \<Rightarrow> string" where
  "join sep [] = []"
| "join sep [x] = x"
| "join sep (x # y # ys) = x @ sep @ join sep (y # ys)"

section \<open>Table loader\<close>

text \<open>
  Lines 70, 84, 103 and 106 of the script are the same expression,
  \<^verbatim>\<open>np.array([np.array(line.strip().split("\t")) for line in open(path)])\<close>.
  A file is the list of its lines as iteration over the open file yields them (each
  with its terminator); a missing file makes \<open>open\<close> raise.

  \<open>np.array\<close> over rows of differing lengths depends on the NumPy release: before
  1.24 it builds a one-dimensional array of row arrays, from 1.24 on it raises
  ValueError. The flag \<open>ragged_ok\<close> selects the behaviour; rows of equal length give a
  two-dimensional array of strings in both.
\<close>

type_synonym sheet = "string list list"

definition rectangular :: "'a list list \<Rightarrow> bool" where
  "rectangular rows = list_all (\<lambda>r. length r = length (hd rows)) rows"

definition np_array :: "bool \<Rightarrow> 'a list list \<Rightarrow> py_error + 'a list list" where
  "np_array ragged_ok rows = (if ragged_ok \<or> rectangular rows then Inr rows else Inl ValueError)"

definition parse_line :: "string \<Rightarrow> string list" where
  "parse_line line = split_on TAB (strip line)"

definition read_table :: "bool \<Rightarrow> (string \<rightharpoonup> string list) \<Rightarrow> string \<Rightarrow> py_error + sheet" where
  "read_table ragged_ok fs path =
     (case fs path of
        None \<Rightarrow> Inl FileNotFoundError
      | Some lines \<Rightarrow> np_array ragged_ok (map parse_line lines))"

text \<open>
  The loader as the specification words it: only the line terminator is removed from
  the end of each line before splitting.
\<close>

definition strip_terminator :: "string \<Rightarrow> string" where
  "strip_terminator s = rev (dropWhile (\<lambda>c. c = LF \<or> c = CR) (rev s))"

definition parse_line_spec :: "string \<Rightarrow> string list" where
  "parse_line_spec line = split_on TAB (strip_terminator line)"

section \<open>Numbers as text\<close>

definition isdigit :: "char \<Rightarrow> bool" where
  "isdigit c \<longleftrightarrow> c \<in> set ''0123456789''"

definition digit_char :: "nat \<Rightarrow> char" where
  "digit_char d = ''0123456789'' ! d"

definition digit_val :: "char \<Rightarrow> nat" where
  "digit_val c = length (takeWhile (\<lambda>d. d \<noteq> c) ''0123456789'')"

text \<open>\<open>str(n)\<close> for a non-negative integer.\<close>

fun str_nat :: "nat \<Rightarrow> string" where
  "str_nat n = (if n < 10 then [digit_char n] else str_nat (n div 10) @ [digit_char (n mod 10)])"

declare str_nat.simps [simp del]

text \<open>
  \<open>int(s)\<close> and \<open>float(s)\<close> skip less white space than \<open>str.strip\<close> does: the
  code points above 126 that are white space are turned into blanks, and then the
  white space of ASCII is skipped at both ends, so the separators U+001C to U+001F
  stay and make the conversion fail.
\<close>

definition isspace_number :: "char \<Rightarrow> bool" where
  "isspace_number c \<longleftrightarrow> c \<in> set [CHR 0x09, CHR 0x0A, CHR 0x0B, CHR 0x0C, CHR 0x0D,
     CHR 0x20, CHR 0x85, CHR 0xA0]"

text \<open>
  \<open>int(s)\<close> on a string: that white space is ignored, one sign is allowed, and the
  digits may be grouped by single underscores. Memory is taken to be unbounded, and
  the interpreter's configurable limit on the number of digits is left out.
\<close>

fun int_body :: "string \<Rightarrow> nat \<Rightarrow> nat option" where
  "int_body [] acc = Some acc"
| "int_body [c] acc = (if isdigit c then Some (10 * acc + digit_val c) else None)"
| "int_body (c # d # ds) acc =
     (if isdigit c then int_body (d # ds) (10 * acc + digit_val c)
      else if c = CHR ''_'' \<and> isdigit d then int_body ds (10 * acc + digit_val d)
      else None)"

definition int_digits :: "string \<Rightarrow> nat option" where
  "int_digits s = (case s of [] \<Rightarrow> None
     | c # cs \<Rightarrow> if isdigit c then int_body cs (digit_val c) else None)"

definition py_int :: "string \<Rightarrow> int option" where
  "py_int s = (case strip_chars isspace_number s of
       [] \<Rightarrow> None
     | c # cs \<Rightarrow>
         if c = CHR ''-'' then map_option (\<lambda>n. - int n) (int_digits cs)
         else if c = CHR ''+'' then map_option int (int_digits cs)
         else map_option int (int_digits (c # cs)))"



section \<open>Text replacement and the two token patterns\<close>

text \<open>\<open>s.replace(old, new)\<close>: every non-overlapping occurrence, left to right.\<close>

function replace :: "string \<Rightarrow> string \<Rightarrow> string \<Rightarrow> string" where
  "replace old new s =
     (if old = [] then new @ concat (map (\<lambda>c. c # new) s)
      else if s = [] then []
      else if take (length old) s = old then new @ replace old new (drop (length old) s)
      else hd s # replace old new (tl s))"
  by pat_completeness auto
termination
  by (relation "measure (\<lambda>(old, new, s). length s)") auto


declare replace.simps [simp del]

datatype char_class = Digit | NonDigit

datatype regex_item = Lit char | Star char_class

fun in_class :: "char_class \<Rightarrow> char \<Rightarrow> bool" where
  "in_class Digit c = isdigit c"
| "in_class NonDigit c = (\<not> isdigit c)"

text \<open>
  A backtracking matcher for a sequence of literals and greedy starred classes: the
  text matched at the start of the string, as \<open>re\<close> finds it (longest repetition
  first, giving characters back until the rest of the pattern matches).
\<close>

fun match_here :: "regex_item list \<Rightarrow> string \<Rightarrow> string option" where
  "match_here [] s = Some []"
| "match_here (Lit c # r) [] = None"
| "match_here (Lit c # r) (x # xs) =
     (if x = c then map_option ((#) x) (match_here r xs) else None)"
| "match_here (Star cl # r) [] = match_here r []"
| "match_here (Star cl # r) (x # xs) =
     (if in_class cl x then
        (case match_here (Star cl # r) xs of
           Some m \<Rightarrow> Some (x # m)
         | None \<Rightarrow> match_here r (x # xs))
      else match_here r (x # xs))"

definition match_len :: "regex_item list \<Rightarrow> string \<Rightarrow> nat" where
  "match_len pat s = (case match_here pat s of None \<Rightarrow> 0 | Some m \<Rightarrow> length m)"

function finditer :: "regex_item list \<Rightarrow> string \<Rightarrow> string list" where
  "finditer pat s =
     (if s = [] then []
      else if match_len pat s = 0 then finditer pat (tl s)
      else take (match_len pat s) s # finditer pat (drop (match_len pat s) s))"
  by pat_completeness auto
termination
proof (relation "measure (\<lambda>(pat, s). length s)")
  show "wf (measure (\<lambda>(pat, s). length s))" by simp
next
  fix pat :: "regex_item list" and s :: string
  assume "s \<noteq> []" "match_len pat s = 0"
  then show "((pat, tl s), pat, s) \<in> measure (\<lambda>(pat, s). length s)" by simp
next
  fix pat :: "regex_item list" and s :: string
  assume "s \<noteq> []" "match_len pat s \<noteq> 0"
  then show "((pat, drop (match_len pat s) s), pat, s) \<in> measure (\<lambda>(pat, s). length s)"
    by (cases s) simp_all
qed


declare finditer.simps [simp del]

definition pattern :: "regex_item list" where
  "pattern = [Lit CHR ''k'', Star NonDigit, Star Digit]"

definition pattern1 :: "nat \<Rightarrow> regex_item list" where
  "pattern1 j = [Lit CHR ''k'', Star NonDigit, Star Digit, Lit CHR ''_''] @ map Lit (str_nat j)"


fun subst_matches :: "string list \<Rightarrow> string \<Rightarrow> string \<Rightarrow> string" where
  "subst_matches [] name formula = formula"
| "subst_matches (m # ms) name formula = subst_matches ms name (replace m name formula)"

section \<open>Floating-point numbers\<close>

text \<open>
  The script parses numbers with \<open>float\<close>, \<open>np.double\<close> and \<open>np.genfromtxt\<close>, prints
  them with \<open>%.6e\<close> and \<open>str\<close>, and divides and multiplies them. The model takes these
  operations as a parameter, so every result holds for IEEE doubles however they are
  implemented. \<open>to_float\<close> is \<open>float(s)\<close>, with \<open>None\<close> for a ValueError; \<open>np.double\<close>
  on a string is taken to accept the same texts with the same values.
\<close>

record 'f floats =
  to_float :: "string \<Rightarrow> 'f option"
  is_nan :: "'f \<Rightarrow> bool"
  fmt_e :: "'f \<Rightarrow> string"
  fl_str :: "'f \<Rightarrow> string"
  fl_div :: "'f \<Rightarrow> 'f \<Rightarrow> 'f"
  fl_mul :: "'f \<Rightarrow> 'f \<Rightarrow> 'f"
  fl_pos :: "'f \<Rightarrow> bool"

definition np_double :: "'f floats \<Rightarrow> string \<Rightarrow> py_error + 'f" where
  "np_double F s = (case to_float F s of None \<Rightarrow> Inl ValueError | Some v \<Rightarrow> Inr v)"

text \<open>\<open>s.split()\<close>: the maximal runs of characters that are not white space.\<close>

fun split_ws_acc :: "string \<Rightarrow> string \<Rightarrow> string list" where
  "split_ws_acc cur [] = (if cur = [] then [] else [cur])"
| "split_ws_acc cur (c # cs) =
     (if isspace c then (if cur = [] then split_ws_acc [] cs else cur # split_ws_acc [] cs)
      else split_ws_acc (cur @ [c]) cs)"

definition split_ws :: "string \<Rightarrow> string list" where
  "split_ws s = split_ws_acc [] s"

text \<open>
  \<open>np.genfromtxt(lines, float)\<close> on a list of strings, each read as one line: the text
  after a \<open>#\<close> is a comment, the line is stripped of blanks and line ends and split at
  white space, empty lines are skipped, and a line with another number of columns than
  the first makes the call raise ValueError. A value that \<open>float\<close> rejects becomes nan.
  The array is returned flattened, with \<open>None\<close> for nan.
\<close>

definition split_line :: "string \<Rightarrow> string list" where
  "split_line line =
     split_ws (strip_chars (\<lambda>c. c \<in> set [CHR 0x20, CR, LF]) (takeWhile (\<lambda>c. c \<noteq> CHR ''#'') line))"

definition loose_float :: "'f floats \<Rightarrow> string \<Rightarrow> 'f option" where
  "loose_float F tok =
     (case to_float F tok of None \<Rightarrow> None | Some v \<Rightarrow> if is_nan F v then None else Some v)"

definition genfromtxt :: "'f floats \<Rightarrow> string list \<Rightarrow> py_error + 'f option list" where
  "genfromtxt F lines =
     (let rows = filter (\<lambda>r. r \<noteq> []) (map split_line lines) in
      if rectangular rows then Inr (map (loose_float F) (concat rows)) else Inl ValueError)"

text \<open>\<open>params[~np.isnan(params)]\<close>.\<close>

definition drop_nan :: "'f option list \<Rightarrow> 'f list" where
  "drop_nan arr = concat (map (\<lambda>x. case x of None \<Rightarrow> [] | Some v \<Rightarrow> [v]) arr)"

section \<open>Reactions and parameters\<close>

text \<open>The four parallel lists the reaction loop appends to.\<close>

record 'f params =
  paramnames :: "string list"
  paramvals :: "'f list"
  paramrxns :: "string list"
  paramidxs :: "nat list"

definition no_params :: "'f params" where
  "no_params = \<lparr>paramnames = [], paramvals = [], paramrxns = [], paramidxs = []\<rparr>"

definition add_param :: "string \<Rightarrow> 'f \<Rightarrow> string \<Rightarrow> nat \<Rightarrow> 'f params \<Rightarrow> 'f params" where
  "add_param name v rxn idx ps =
     \<lparr>paramnames = paramnames ps @ [name], paramvals = paramvals ps @ [v],
      paramrxns = paramrxns ps @ [rxn], paramidxs = paramidxs ps @ [idx]\<rparr>"

text \<open>\<open>"k"+str(rowNum+1)\<close> and \<open>"k"+str(rowNum+1)+"_"+str(j)\<close>.\<close>

definition kname :: "nat \<Rightarrow> string" where
  "kname rowNum = ''k'' @ str_nat (rowNum + 1)"

definition kname_j :: "nat \<Rightarrow> nat \<Rightarrow> string" where
  "kname_j rowNum j = ''k'' @ str_nat (rowNum + 1) @ ''_'' @ str_nat j"

text \<open>
  Lines 124 to 132: one pass over the species rows of the stoichiometric matrix for the
  reaction in column \<open>rowNum\<close>. The state is \<open>(reactants, products, formula)\<close>.
\<close>

primrec add_reactant :: "nat \<Rightarrow> string \<Rightarrow> string list \<times> string \<Rightarrow> string list \<times> string" where
  "add_reactant 0 name st = st"
| "add_reactant (Suc n) name st = add_reactant n name (fst st @ [name], snd st @ name @ ''*'')"

primrec add_product :: "nat \<Rightarrow> string \<Rightarrow> string list \<Rightarrow> string list" where
  "add_product 0 name products = products"
| "add_product (Suc n) name products = add_product n name (products @ [name])"

fun expand_stoic :: "nat \<Rightarrow> (string \<times> string list) list \<Rightarrow> string list \<times> string list \<times> string
    \<Rightarrow> py_error + (string list \<times> string list \<times> string)" where
  "expand_stoic rowNum [] st = Inr st"
| "expand_stoic rowNum ((stoic_rowname, data) # rest) (reactants, products, formula) =
     (case nth_opt data rowNum of
        None \<Rightarrow> Inl IndexError
      | Some cell \<Rightarrow>
          (case py_int cell of
             None \<Rightarrow> Inl ValueError
           | Some stoic_value \<Rightarrow>
               if stoic_value < 0 then
                 expand_stoic rowNum rest
                   (fst (add_reactant (nat (- stoic_value)) stoic_rowname (reactants, formula)),
                    products,
                    snd (add_reactant (nat (- stoic_value)) stoic_rowname (reactants, formula)))
               else if stoic_value > 0 then
                 expand_stoic rowNum rest
                   (reactants, add_product (nat stoic_value) stoic_rowname products, formula)
               else expand_stoic rowNum rest (reactants, products, formula)))"

text \<open>
  Lines 159 to 169, the loop over the non-missing parameters: \<open>n\<close> iterations are left,
  \<open>q\<close> is the position and \<open>j\<close> the running suffix. The state is the formula and the
  parameter lists.
\<close>

primrec param_loop :: "'f floats \<Rightarrow> nat \<Rightarrow> string \<Rightarrow> string list \<Rightarrow> nat \<Rightarrow> nat \<Rightarrow> nat
    \<Rightarrow> string \<times> 'f params \<Rightarrow> py_error + (string \<times> 'f params)" where
  "param_loop F rowNum rxn ratelaw 0 q j st = Inr st"
| "param_loop F rowNum rxn ratelaw (Suc n) q j st =
     (case nth_opt ratelaw (j + 1) of
        None \<Rightarrow> Inl IndexError
      | Some cell \<Rightarrow>
          (case to_float F cell of
             None \<Rightarrow> Inl ValueError
           | Some v \<Rightarrow>
               param_loop F rowNum rxn ratelaw n (q + 1) (j + 1)
                 (subst_matches (finditer (pattern1 j) (fst st)) (kname_j rowNum j) (fst st),
                  add_param (kname_j rowNum j) v rxn q (snd st))))"

text \<open>
  Lines 134 to 169. \<open>row\<close> is the row of the rate-law sheet, \<open>ratelaw\<close> its fields after
  the first, \<open>formula\<close> the mass-action text built from the stoichiometry.
\<close>

definition rate_formula :: "'f floats \<Rightarrow> nat \<Rightarrow> string list \<Rightarrow> string \<Rightarrow> 'f params
    \<Rightarrow> py_error + (string \<times> 'f params)" where
  "rate_formula F rowNum row formula ps =
     (let ratelaw = drop 1 row in
      case nth_opt ratelaw 1 of
        None \<Rightarrow> Inl IndexError
      | Some field \<Rightarrow>
          if CHR ''k'' \<notin> set field then
            (case to_float F field of
               None \<Rightarrow> Inl ValueError
             | Some v \<Rightarrow> Inr (butlast formula, add_param (kname rowNum) v (row ! 0) 0 ps))
          else
            (case genfromtxt F (drop 2 ratelaw) of
               Inl e \<Rightarrow> Inl e
             | Inr arr \<Rightarrow>
                 if length (drop_nan arr) = 1 then
                   (case nth_opt ratelaw 2 of
                      None \<Rightarrow> Inl IndexError
                    | Some cell \<Rightarrow>
                        (case to_float F cell of
                           None \<Rightarrow> Inl ValueError
                         | Some v \<Rightarrow>
                             Inr (subst_matches (finditer pattern field) (kname_j rowNum 1) field,
                                  add_param (kname_j rowNum 1) v (row ! 0) 0 ps)))
                 else param_loop F rowNum (row ! 0) ratelaw (length (drop_nan arr)) 0 1 (field, ps)))"

text \<open>Line 175, the reaction line.\<close>

definition reaction_line :: "string \<Rightarrow> string list \<Rightarrow> string list \<Rightarrow> string \<Rightarrow> string \<Rightarrow> string" where
  "reaction_line rxn reactants products formula compartment =
     ''  '' @ rxn @ '': '' @ join '' + '' reactants @ '' => '' @ join '' + '' products
       @ ''; ('' @ formula @ '')*'' @ compartment @ '';'' @ [LF]"

text \<open>
  The body of the reaction loop (lines 120 to 175) for one row of the rate-law sheet:
  the line written to the model file, if any, and the new parameter lists.
\<close>

definition reaction_row :: "'f floats \<Rightarrow> string list \<Rightarrow> (string \<times> string list) list \<Rightarrow> nat
    \<Rightarrow> string list \<Rightarrow> 'f params \<Rightarrow> py_error + (string option \<times> 'f params)" where
  "reaction_row F stoic_columnnames stoic rowNum row ps =
     bind_err (expand_stoic rowNum stoic ([], [], ''k'' @ str_nat (rowNum + 1) @ ''*''))
       (\<lambda>(reactants, products, formula).
     bind_err (rate_formula F rowNum row formula ps)
       (\<lambda>(formula', ps').
          if products = [] \<and> reactants = [] then Inr (None, ps')
          else bind_err (index stoic_columnnames rowNum)
            (\<lambda>rxn. Inr (Some (reaction_line rxn reactants products formula' (row ! 1)), ps'))))"

fun reaction_loop :: "'f floats \<Rightarrow> string list \<Rightarrow> (string \<times> string list) list \<Rightarrow> nat
    \<Rightarrow> string list list \<Rightarrow> string option list \<times> 'f params
    \<Rightarrow> py_error + (string option list \<times> 'f params)" where
  "reaction_loop F cols stoic rowNum [] st = Inr st"
| "reaction_loop F cols stoic rowNum (row # rows) st =
     (case reaction_row F cols stoic rowNum row (snd st) of
        Inl e \<Rightarrow> Inl e
      | Inr (out, ps) \<Rightarrow> reaction_loop F cols stoic (Suc rowNum) rows (fst st @ [out], ps))"

text \<open>An integer-valued instance of the numeric interface, to run examples.\<close>

datatype num = Num int | NaN

definition str_int :: "int \<Rightarrow> string" where
  "str_int i = (if i < 0 then ''-'' @ str_nat (nat (- i)) else str_nat (nat i))"

fun num_str :: "num \<Rightarrow> string" where
  "num_str (Num i) = str_int i"
| "num_str NaN = ''nan''"

fun num_op :: "(int \<Rightarrow> int \<Rightarrow> int) \<Rightarrow> num \<Rightarrow> num \<Rightarrow> num" where
  "num_op f (Num a) (Num b) = Num (f a b)"
| "num_op f _ _ = NaN"

fun num_pos :: "num \<Rightarrow> bool" where
  "num_pos (Num i) = (0 < i)"
| "num_pos NaN = False"

definition int_floats :: "num floats" where
  "int_floats =
     \<lparr>to_float = (\<lambda>s. if strip_chars isspace_number s = ''nan'' then Some NaN
                      else map_option Num (py_int s)),
      is_nan = (\<lambda>v. v = NaN), fmt_e = num_str, fl_str = num_str,
      fl_div = num_op (div), fl_mul = num_op (*), fl_pos = num_pos\<rparr>"

section \<open>The model text\<close>

text \<open>
  Lines 52 to 222 write the Antimony text of the model piece by piece. Each definition
  below is the text of one block of writes.
\<close>

definition header_text :: string where
  "header_text = ''# PanCancer Model by Birtwistle Lab '' @ [LF] @ ''model SPARCED()'' @ [LF]"

definition compartments_text :: "string list \<Rightarrow> string" where
  "compartments_text compartments =
     [LF] @ ''  # Compartments and Species:'' @ [LF]
     @ concat (map (\<lambda>compName. ''  Compartment '' @ compName @ ''; '') compartments) @ [LF]"

definition species_text :: "(string \<times> string) list \<Rightarrow> string" where
  "species_text species =
     [LF] @ concat (map (\<lambda>(name, c). ''  Species '' @ name @ '' in '' @ c @ '';'' @ [LF]) species)"

definition reactions_text :: "string option list \<Rightarrow> string" where
  "reactions_text outs =
     [LF, LF] @ ''  # Reactions:'' @ [LF]
     @ concat (map (\<lambda>out. case out of None \<Rightarrow> [] | Some line \<Rightarrow> line) outs)"

definition init_line :: "'f floats \<Rightarrow> string \<Rightarrow> 'f \<Rightarrow> string" where
  "init_line F name v = ''  '' @ name @ '' = '' @ fmt_e F v @ '';'' @ [LF]"

definition compartment_inits :: "'f floats \<Rightarrow> (string \<times> 'f) list \<Rightarrow> string" where
  "compartment_inits F vols =
     [LF] @ ''  # Compartment initializations:'' @ [LF]
     @ concat (map (\<lambda>(name, v). init_line F name v @ ''  '' @ name @ '' has volume;'' @ [LF]) vols)"

definition species_inits :: "'f floats \<Rightarrow> (string \<times> 'f) list \<Rightarrow> string" where
  "species_inits F ics =
     [LF] @ ''  # Species initializations:'' @ [LF]
     @ concat (map (\<lambda>(name, v). init_line F name v) ics)"

definition param_inits :: "'f floats \<Rightarrow> 'f params \<Rightarrow> string" where
  "param_inits F ps =
     [LF] @ ''  # Parameter initializations:'' @ [LF]
     @ concat (map (\<lambda>(name, v). init_line F name v) (zip (paramnames ps) (paramvals ps)))"

definition footer_text :: string where
  "footer_text =
     [LF] @ ''  # Other declarations:'' @ [LF]
     @ ''  const'' @ ''  Cytoplasm,'' @ ''  Extracellular,'' @ ''  Nucleus,''
     @ ''  Mitochondrion;'' @ [LF]
     @ [LF] @ ''  # Unit definitions:''
     @ [LF] @ ''  unit time_unit = second;''
     @ [LF] @ ''  unit volume = litre;''
     @ [LF] @ ''  unit substance = 1e-9 mole;''
     @ [LF] @ ''  unit nM = 1e-9 mole / litre;''
     @ [LF]
     @ [LF] @ ''end''"

text \<open>
  \<open>params_all\<close> is the data frame of line 178, one row per parameter: name, value,
  reaction and position. Line 179 writes it to ParamsAll.txt.
\<close>

definition params_table :: "'f params \<Rightarrow> (string \<times> 'f \<times> string \<times> nat) list" where
  "params_table ps = zip (paramnames ps) (zip (paramvals ps) (zip (paramrxns ps) (paramidxs ps)))"

record 'f model =
  model_text :: string
  params_all :: "(string \<times> 'f \<times> string \<times> nat) list"
  model_compartments :: sheet
  model_species :: sheet

text \<open>
  Lines 64 to 222: the tables are read and the model text is written. Files are named
  by their base name. The result is the text of SPARCED.txt, the table of
  ParamsAll.txt and the two sheets the later stages use again.
\<close>

definition stoic_rows :: "sheet \<Rightarrow> py_error + (string \<times> string list) list" where
  "stoic_rows stoic_sheet =
     try_map (\<lambda>line. case line of [] \<Rightarrow> Inl IndexError | name # data \<Rightarrow> Inr (name, data))
       (drop 1 stoic_sheet)"

definition write_model :: "bool \<Rightarrow> 'f floats \<Rightarrow> (string \<rightharpoonup> string list) \<Rightarrow> py_error + 'f model" where
  "write_model r F fs =
     bind_err (read_table r fs ''Compartments.txt'') (\<lambda>compartment_sheet.
     bind_err (try_map (\<lambda>row. bind_err (index row 0) (\<lambda>name.
                 bind_err (index row 1) (\<lambda>vol. Inr (name, vol)))) (drop 1 compartment_sheet))
       (\<lambda>comps.
     bind_err (read_table r fs ''Species.txt'') (\<lambda>species_sheet.
     bind_err (try_map (\<lambda>row. index row 1) (drop 1 species_sheet)) (\<lambda>species_compartments.
     bind_err (read_table r fs ''StoicMat.txt'') (\<lambda>stoic_sheet.
     bind_err (read_table r fs ''Ratelaws.txt'') (\<lambda>ratelaw_sheet.
     bind_err (np_array r (map (drop 1) (drop 1 ratelaw_sheet))) (\<lambda>ratelaw_data.
     bind_err (index stoic_sheet 0) (\<lambda>stoic_columnnames.
     bind_err (stoic_rows stoic_sheet) (\<lambda>stoic.
     bind_err (np_array r (map snd stoic)) (\<lambda>stoic_data.
     bind_err (reaction_loop F stoic_columnnames stoic 0 (drop 1 ratelaw_sheet) ([], no_params))
       (\<lambda>(outs, ps).
     bind_err (try_map (\<lambda>(name, vol). bind_err (np_double F vol) (\<lambda>v. Inr (name, v))) comps)
       (\<lambda>vols.
     bind_err (try_map (\<lambda>val. bind_err (index val 2) (\<lambda>ic.
                 bind_err (np_double F ic) (\<lambda>v. Inr (val ! 0, v)))) (drop 1 species_sheet))
       (\<lambda>ics.
       Inr \<lparr>model_text =
              header_text @ compartments_text (map fst comps)
              @ species_text (zip (map (\<lambda>val. val ! 0) (drop 1 species_sheet)) species_compartments)
              @ reactions_text outs @ compartment_inits F vols @ species_inits F ics
              @ param_inits F ps @ footer_text,
            params_all = params_table ps,
            model_compartments = compartment_sheet,
            model_species = species_sheet\<rparr>)))))))))))))"

section \<open>Annotation of the SBML document\<close>

text \<open>
  Of the SBML document only the annotations matter here: a map from the identifiers of
  the species, and one from those of the compartments, to the annotation text.
  \<open>getSpecies\<close> on an unknown identifier returns \<open>None\<close>, and the call of
  \<open>setAnnotation\<close> on it raises AttributeError. \<open>setAnnotation\<close> is taken to store the
  text it is given.
\<close>

record sbml_doc =
  species_annotation :: "string \<rightharpoonup> string"
  compartment_annotation :: "string \<rightharpoonup> string"

text \<open>Lines 248 to 254: the loop over the columns from index 4 on.\<close>

fun annot_loop :: "string list \<Rightarrow> string \<Rightarrow> string" where
  "annot_loop [] Annot = Annot"
| "annot_loop (cell # cells) Annot =
     (if strip cell = ''nan'' \<or> strip cell = [] then Annot
      else annot_loop cells (Annot @ '' '' @ cell))"

definition species_annot :: "string list \<Rightarrow> string" where
  "species_annot row = annot_loop (drop 4 row) []"

fun annotate_species :: "string list list \<Rightarrow> sbml_doc \<Rightarrow> py_error + sbml_doc" where
  "annotate_species [] doc = Inr doc"
| "annotate_species (row # rows) doc =
     (case nth_opt row 0 of
        None \<Rightarrow> Inl IndexError
      | Some sid \<Rightarrow>
          (case species_annotation doc sid of
             None \<Rightarrow> Inl AttributeError
           | Some old \<Rightarrow>
               annotate_species rows
                 (doc\<lparr>species_annotation := (species_annotation doc)(sid \<mapsto> species_annot row)\<rparr>)))"

fun annotate_compartments :: "string list list \<Rightarrow> sbml_doc \<Rightarrow> py_error + sbml_doc" where
  "annotate_compartments [] doc = Inr doc"
| "annotate_compartments (row # rows) doc =
     (case nth_opt row 0 of
        None \<Rightarrow> Inl IndexError
      | Some cid \<Rightarrow>
          (case compartment_annotation doc cid of
             None \<Rightarrow> Inl AttributeError
           | Some old \<Rightarrow>
               (case nth_opt row 2 of
                  None \<Rightarrow> Inl IndexError
                | Some a \<Rightarrow>
                    annotate_compartments rows
                      (doc\<lparr>compartment_annotation := (compartment_annotation doc)(cid \<mapsto> a)\<rparr>))))"

text \<open>Lines 247 to 263: the annotated document, which is written over SPARCED.xml.\<close>

definition annotate :: "sheet \<Rightarrow> sheet \<Rightarrow> sbml_doc \<Rightarrow> py_error + sbml_doc" where
  "annotate species_sheet compartment_sheet doc =
     bind_err (annotate_species (drop 1 species_sheet) doc)
       (annotate_compartments (drop 1 compartment_sheet))"

section \<open>Observables\<close>

text \<open>
  \<open>ObsMat\<close> is the data frame read from Observables.txt: the row labels and, for each
  column, its name and its values, one per row label; the labels are strings. The
  series \<open>Vf\<close> is indexed by the species names, and on such an index an integer key
  selects by position.
\<close>

record 'f obsmat =
  obs_index :: "string list"
  obs_columns :: "(string \<times> 'f list) list"

text \<open>
  \<open>compartment_sheet[compartment_sheet[:,0]==name, 1]\<close>: the second field of the rows
  whose first field is \<open>name\<close>. The two slices need a two-dimensional sheet with at
  least two columns.
\<close>

definition volumes_named :: "sheet \<Rightarrow> string \<Rightarrow> py_error + string list" where
  "volumes_named compartment_sheet name =
     (if compartment_sheet = [] \<or> \<not> rectangular compartment_sheet
         \<or> length (hd compartment_sheet) < 2 then Inl IndexError
      else Inr (map (\<lambda>row. row ! 1) (filter (\<lambda>row. row ! 0 = name) compartment_sheet)))"

text \<open>
  Line 285: the volume of the row or rows named Cytoplasm, which must be exactly one
  for \<open>float\<close> to accept the array.
\<close>

definition cytoplasm_volume :: "'f floats \<Rightarrow> sheet \<Rightarrow> py_error + 'f" where
  "cytoplasm_volume F compartment_sheet =
     bind_err (volumes_named compartment_sheet ''Cytoplasm'') (\<lambda>vs.
       case vs of [v] \<Rightarrow> np_double F v | _ \<Rightarrow> Inl TypeError)"

text \<open>
  Lines 287 to 290: the volume of the compartment of every species, the first row of
  that name being taken. The compartment names are collected from the second field of
  every species row before any volume is looked up.
\<close>

definition species_volume :: "'f floats \<Rightarrow> sheet \<Rightarrow> string \<Rightarrow> py_error + 'f" where
  "species_volume F compartment_sheet c =
     bind_err (volumes_named compartment_sheet c) (\<lambda>vs.
       case vs of [] \<Rightarrow> Inl IndexError | v # _ \<Rightarrow> np_double F v)"

definition Vol_species :: "'f floats \<Rightarrow> sheet \<Rightarrow> sheet \<Rightarrow> py_error + 'f list" where
  "Vol_species F compartment_sheet species_sheet =
     bind_err (try_map (\<lambda>row. index row 1) (drop 1 species_sheet))
       (try_map (species_volume F compartment_sheet))"

text \<open>
  Line 295: the positions of the rows of a column whose weight is positive. Line 294
  takes the row labels at these positions.
\<close>

definition sp_obs_id :: "'f floats \<Rightarrow> 'f list \<Rightarrow> nat list" where
  "sp_obs_id F weights = filter (\<lambda>p. fl_pos F (weights ! p)) [0 ..< length weights]"

text \<open>
  Lines 296 and 297: the volume of every species divided by \<open>Vc\<close>, times the column.
  The product of the series and the array is taken by position. A column with as many
  rows as there are species is multiplied row by row; a column of one row is broadcast,
  its one weight multiplying every ratio; any other length raises ValueError.
\<close>

definition Vf :: "'f floats \<Rightarrow> 'f list \<Rightarrow> 'f \<Rightarrow> 'f list \<Rightarrow> py_error + 'f list" where
  "Vf F vols Vc weights =
     (if length weights = length vols then
        Inr (map (\<lambda>(vol, w). fl_mul F (fl_div F vol Vc) w) (zip vols weights))
      else if length weights = 1 then
        Inr (map (\<lambda>vol. fl_mul F (fl_div F vol Vc) (weights ! 0)) vols)
      else Inl ValueError)"

text \<open>
  Lines 294 to 297 and the lookups \<open>Vf[sp_obs_id]\<close> of lines 299 to 306: the labels of
  the rows of positive weight, each with its factor. The factors are selected by
  position in \<open>Vf\<close>, which has one entry per species. A position can only be missing
  when there is no species and a one-row column has a positive weight; the index of
  \<open>Vf\<close> is then an empty index of floats, on which the integer key is looked up as a
  label: KeyError. With no row of positive weight no lookup is made.
\<close>

definition contributors :: "'f floats \<Rightarrow> string list \<Rightarrow> 'f list \<Rightarrow> 'f \<Rightarrow> 'f list
    \<Rightarrow> py_error + (string \<times> 'f) list" where
  "contributors F labels vols Vc weights =
     bind_err (try_map (index labels) (sp_obs_id F weights)) (\<lambda>sp_obs.
     bind_err (Vf F vols Vc weights) (\<lambda>vf.
     bind_err (try_map (\<lambda>p. case nth_opt vf p of None \<Rightarrow> Inl KeyError | Some v \<Rightarrow> Inr v)
                 (sp_obs_id F weights)) (\<lambda>factors.
       Inr (zip sp_obs factors))))"

definition obs_term :: "'f floats \<Rightarrow> string \<times> 'f \<Rightarrow> string" where
  "obs_term F t = fst t @ ''*'' @ fl_str F (snd t)"

text \<open>Lines 304 and 305: the loop of the third branch.\<close>

fun obs_terms_plus :: "'f floats \<Rightarrow> (string \<times> 'f) list \<Rightarrow> string \<Rightarrow> string" where
  "obs_terms_plus F [] formula_i = formula_i"
| "obs_terms_plus F (t # ts) formula_i = obs_terms_plus F ts (formula_i @ obs_term F t @ ''+'')"

text \<open>
  Lines 298 to 306: the three branches. \<open>formula_i\<close> is \<open>None\<close> while the name is not
  bound; with no contributor no branch assigns it.
\<close>

definition obs_formula :: "'f floats \<Rightarrow> (string \<times> 'f) list \<Rightarrow> string option \<Rightarrow> string option" where
  "obs_formula F sp_obs formula_i =
     (if length sp_obs = 1 then Some (obs_term F (sp_obs ! 0))
      else if length sp_obs = 2 then
        Some (obs_term F (sp_obs ! 0) @ ''+'' @ obs_term F (sp_obs ! 1))
      else if length sp_obs > 2 then
        Some (obs_terms_plus F (butlast sp_obs) [] @ obs_term F (last sp_obs))
      else formula_i)"

text \<open>
  Lines 293 to 307: the loop over the columns. Appending an unbound \<open>formula_i\<close> raises
  NameError.
\<close>

fun obs_loop :: "'f floats \<Rightarrow> string list \<Rightarrow> 'f list \<Rightarrow> 'f \<Rightarrow> (string \<times> 'f list) list
    \<Rightarrow> string option \<Rightarrow> string list \<Rightarrow> py_error + string list" where
  "obs_loop F labels vols Vc [] formula_i formula_obs = Inr formula_obs"
| "obs_loop F labels vols Vc ((obs, weights) # cols) formula_i formula_obs =
     (case contributors F labels vols Vc weights of
        Inl e \<Rightarrow> Inl e
      | Inr sp_obs \<Rightarrow>
          (case obs_formula F sp_obs formula_i of
             None \<Rightarrow> Inl NameError
           | Some f \<Rightarrow> obs_loop F labels vols Vc cols (Some f) (formula_obs @ [f])))"

text \<open>Lines 285 to 313: the dictionary of the observables, as an association list.\<close>

definition observables :: "'f floats \<Rightarrow> sheet \<Rightarrow> sheet \<Rightarrow> 'f obsmat
    \<Rightarrow> py_error + (string \<times> string) list" where
  "observables F compartment_sheet species_sheet ObsMat =
     bind_err (cytoplasm_volume F compartment_sheet) (\<lambda>Vc.
     bind_err (Vol_species F compartment_sheet species_sheet) (\<lambda>vols.
     bind_err (obs_loop F (obs_index ObsMat) vols Vc (obs_columns ObsMat) None []) (\<lambda>formula_obs.
       Inr (zip (map fst (obs_columns ObsMat)) formula_obs))))"

section \<open>The whole run\<close>

text \<open>
  What the script takes from outside: the input files, the NumPy behaviour on ragged
  rows, the floating-point operations, and the results of the calls into Antimony,
  libSBML, pandas and AMICI. \<open>sb_loadFile\<close> and \<open>sb_writeSBMLFile\<close> give the return code
  of the two Antimony calls on the written model text, \<open>sbml_of\<close> the document that
  libSBML reads back, \<open>read_obsmat\<close> the result of \<open>pd.read_csv\<close>, and \<open>sbml_import\<close> and
  \<open>sbml2amici\<close> the exception raised by the AMICI importer and compiler, if any.
\<close>

record 'f env =
  files :: "string \<rightharpoonup> string list"
  ragged_ok :: bool
  arith :: "'f floats"
  sb_loadFile :: "string \<Rightarrow> int"
  sb_writeSBMLFile :: "string \<Rightarrow> int"
  sbml_of :: "string \<Rightarrow> sbml_doc"
  sbml_import :: "py_error option"
  read_obsmat :: "py_error + 'f obsmat"
  sbml2amici :: "sbml_doc \<Rightarrow> (string \<times> string) list \<Rightarrow> py_error option"

text \<open>
  How the process ends: it runs to the end, it leaves through \<open>exit(n)\<close>, or an
  exception nobody catches prints a stack trace. The interpreter's exit status is 0,
  \<open>n\<close> and 1.
\<close>

datatype outcome = Completed | Exit nat | Traceback py_error

fun exit_code :: "outcome \<Rightarrow> nat" where
  "exit_code Completed = 0"
| "exit_code (Exit n) = n"
| "exit_code (Traceback e) = 1"

text \<open>
  The result of a run: the lines printed on standard output, how the process ended,
  and the document in SPARCED.xml at that moment, if the file was written.
\<close>

record run =
  stdout :: "string list"
  status :: outcome
  sparced_xml :: "sbml_doc option"

text \<open>
  Lines 239 to 322, after the two checked steps: how the run ends, and the document
  that SPARCED.xml then holds. Line 263 writes the annotated document over the file;
  an exception before it leaves the file as Antimony wrote it.
\<close>

definition after_conversion :: "'f env \<Rightarrow> 'f model \<Rightarrow> outcome \<times> sbml_doc" where
  "after_conversion E m =
     (case annotate (model_species m) (model_compartments m) (sbml_of E (model_text m)) of
        Inl e \<Rightarrow> (Traceback e, sbml_of E (model_text m))
      | Inr doc \<Rightarrow>
          (case sbml_import E of
             Some e \<Rightarrow> (Traceback e, doc)
           | None \<Rightarrow>
               (case read_obsmat E of
                  Inl e \<Rightarrow> (Traceback e, doc)
                | Inr ObsMat \<Rightarrow>
                    (case observables (arith E) (model_compartments m) (model_species m) ObsMat of
                       Inl e \<Rightarrow> (Traceback e, doc)
                     | Inr obs \<Rightarrow>
                         (case sbml2amici E doc obs of
                            Some e \<Rightarrow> (Traceback e, doc)
                          | None \<Rightarrow> (Completed, doc))))))"

text \<open>The script, lines 64 to 322.\<close>

definition main :: "'f env \<Rightarrow> run" where
  "main E =
     (case write_model (ragged_ok E) (arith E) (files E) of
        Inl e \<Rightarrow> \<lparr>stdout = [], status = Traceback e, sparced_xml = None\<rparr>
      | Inr m \<Rightarrow>
          if sb_loadFile E (model_text m) = 1 then
            if sb_writeSBMLFile E (model_text m) = 1 then
              \<lparr>stdout = [''Success loading antimony file'', ''Success converting antimony to SBML''],
               status = fst (after_conversion E m),
               sparced_xml = Some (snd (after_conversion E m))\<rparr>
            else
              \<lparr>stdout = [''Success loading antimony file'', ''Failure converting antimony to SBML''],
               status = Exit 1, sparced_xml = None\<rparr>
          else \<lparr>stdout = [''Failed to load antimony file''], status = Exit 1, sparced_xml = None\<rparr>)"

section \<open>What the reaction loop computes, in closed form\<close>

text \<open>
  The stoichiometric coefficient of a species row in the column of reaction \<open>rowNum\<close>
  (0 where the cell is missing or is no integer: the loop raises there), and the
  condition that the loop raises nowhere.
\<close>

definition stoic_value :: "nat \<Rightarrow> string list \<Rightarrow> int" where
  "stoic_value rowNum data =
     (case nth_opt data rowNum of
        None \<Rightarrow> 0
      | Some cell \<Rightarrow> (case py_int cell of None \<Rightarrow> 0 | Some v \<Rightarrow> v))"

definition stoic_ok :: "nat \<Rightarrow> (string \<times> string list) list \<Rightarrow> bool" where
  "stoic_ok rowNum stoic =
     list_all (\<lambda>(name, data). case nth_opt data rowNum of
                 None \<Rightarrow> False | Some cell \<Rightarrow> py_int cell \<noteq> None) stoic"

text \<open>
  The expanded reactant and product lists: every species name repeated as often as its
  negative, respectively positive, coefficient says, in the order of the species rows.
\<close>

definition expand_reactants :: "nat \<Rightarrow> (string \<times> string list) list \<Rightarrow> string list" where
  "expand_reactants rowNum stoic =
     concat (map (\<lambda>(name, data). replicate (nat (- stoic_value rowNum data)) name) stoic)"

definition expand_products :: "nat \<Rightarrow> (string \<times> string list) list \<Rightarrow> string list" where
  "expand_products rowNum stoic =
     concat (map (\<lambda>(name, data). replicate (nat (stoic_value rowNum data)) name) stoic)"

text \<open>
  The non-missing numeric values among the trailing rate-law columns, as text: the
  tokens that \<open>genfromtxt\<close> reads as a number other than nan.
\<close>

definition numeric_tokens :: "'f floats \<Rightarrow> string list \<Rightarrow> string list" where
  "numeric_tokens F cells =
     filter (\<lambda>tok. loose_float F tok \<noteq> None) (concat (map split_line cells))"

text \<open>
  Textual replacement of the tokens of a formula template: for the parameters
  \<open>1, ..., n\<close> in turn, every text matched by the indexed pattern in the current formula
  is replaced, wherever it occurs, by the name of the parameter.
\<close>

definition replace_tokens :: "regex_item list \<Rightarrow> string \<Rightarrow> string \<Rightarrow> string" where
  "replace_tokens pat name formula =
     foldl (\<lambda>f m. replace m name f) formula (finditer pat formula)"

definition replace_indexed :: "nat \<Rightarrow> nat \<Rightarrow> string \<Rightarrow> string" where
  "replace_indexed rowNum n formula =
     foldl (\<lambda>f j. replace_tokens (pattern1 j) (kname_j rowNum j) f) formula [1 ..< n + 1]"

text \<open>
  The template branch as the specification words it. Every token is replaced where it
  stands: the formula is read once from left to right, and each text that the pattern
  matches gives way to the name (what \<open>re.sub\<close> does). With several parameters this is
  done for \<open>j = 1, ..., n\<close> in turn.
\<close>

function sub_tokens :: "regex_item list \<Rightarrow> string \<Rightarrow> string \<Rightarrow> string" where
  "sub_tokens pat name s =
     (if s = [] then []
      else if match_len pat s = 0 then hd s # sub_tokens pat name (tl s)
      else name @ sub_tokens pat name (drop (match_len pat s) s))"
  by pat_completeness auto
termination
proof (relation "measure (\<lambda>(pat, name, s). length s)")
  show "wf (measure (\<lambda>(pat, name, s). length s))" by simp
next
  fix pat :: "regex_item list" and name s :: string
  assume "s \<noteq> []" "match_len pat s = 0"
  then show "((pat, name, tl s), pat, name, s) \<in> measure (\<lambda>(pat, name, s). length s)" by simp
next
  fix pat :: "regex_item list" and name s :: string
  assume "s \<noteq> []" "match_len pat s \<noteq> 0"
  then show "((pat, name, drop (match_len pat s) s), pat, name, s)
      \<in> measure (\<lambda>(pat, name, s). length s)"
    by (cases s) simp_all
qed

declare sub_tokens.simps [simp del]

definition sub_indexed :: "nat \<Rightarrow> nat \<Rightarrow> string \<Rightarrow> string" where
  "sub_indexed rowNum n formula =
     foldl (\<lambda>f j. sub_tokens (pattern1 j) (kname_j rowNum j) f) formula [1 ..< n + 1]"

text \<open>
  The parameters of a template row as the specification words them: one for every
  non-missing numeric value of the trailing columns, with that value, and the formula
  with every token replaced. The result is the formula, the names and the values.
\<close>

definition template_spec :: "'f floats \<Rightarrow> nat \<Rightarrow> string \<Rightarrow> string list
    \<Rightarrow> (string \<times> string list \<times> 'f list) option" where
  "template_spec F rowNum field cells =
     (case genfromtxt F cells of
        Inl e \<Rightarrow> None
      | Inr arr \<Rightarrow>
          Some (if length (drop_nan arr) = 1 then sub_tokens pattern (kname_j rowNum 1) field
                else sub_indexed rowNum (length (drop_nan arr)) field,
                map (kname_j rowNum) [1 ..< length (drop_nan arr) + 1],
                drop_nan arr))"

text \<open>
  The number of places of a string at which a text occurs, and the condition under
  which replacing a matched text wherever it occurs replaces the token only: the
  pattern matches at most one token, whose text occurs once. For several parameters
  the condition is asked of every pattern in turn, on the formula in which the tokens
  before are replaced.
\<close>

fun occurrences :: "string \<Rightarrow> string \<Rightarrow> nat" where
  "occurrences old [] = 0"
| "occurrences old (c # cs) =
     (if take (length old) (c # cs) = old then 1 else 0) + occurrences old cs"

definition single_token :: "regex_item list \<Rightarrow> string \<Rightarrow> bool" where
  "single_token pat s \<longleftrightarrow>
     (case finditer pat s of [] \<Rightarrow> True | [tok] \<Rightarrow> occurrences tok s = 1 | _ \<Rightarrow> False)"

definition single_tokens :: "nat \<Rightarrow> nat \<Rightarrow> string \<Rightarrow> bool" where
  "single_tokens rowNum n formula \<longleftrightarrow>
     list_all (\<lambda>j. single_token (pattern1 j) (sub_indexed rowNum (j - 1) formula)) [1 ..< n + 1]"

text \<open>The parameter lists \<open>ps\<close> followed by the entries of \<open>new\<close>.\<close>

definition append_params :: "'f params \<Rightarrow> 'f params \<Rightarrow> 'f params" where
  "append_params ps new =
     \<lparr>paramnames = paramnames ps @ paramnames new, paramvals = paramvals ps @ paramvals new,
      paramrxns = paramrxns ps @ paramrxns new, paramidxs = paramidxs ps @ paramidxs new\<rparr>"

text \<open>The four lists have one entry per parameter.\<close>

definition aligned :: "'f params \<Rightarrow> bool" where
  "aligned ps \<longleftrightarrow>
     length (paramvals ps) = length (paramnames ps) \<and>
     length (paramrxns ps) = length (paramnames ps) \<and>
     length (paramidxs ps) = length (paramnames ps)"

text \<open>The value of a decimal numeral, the inverse of \<open>str\<close>.\<close>

definition nat_of_digits :: "string \<Rightarrow> nat" where
  "nat_of_digits s = foldl (\<lambda>a c. 10 * a + digit_val c) 0 s"

section \<open>A small example\<close>

text \<open>
  Two compartments, one species and two reactions, the second of which has neither
  reactants nor products. The header line of the stoichiometric matrix starts with an
  empty cell, which \<open>strip()\<close> removes.
\<close>

definition ex_fs :: "string \<rightharpoonup> string list" where
  "ex_fs =
     [''Compartments.txt'' \<mapsto>
        [''comp'' @ [TAB] @ ''vol'' @ [TAB] @ ''ann'' @ [LF],
         ''Cytoplasm'' @ [TAB] @ ''5'' @ [TAB] @ ''GO:1'' @ [LF],
         ''Nucleus'' @ [TAB] @ ''2'' @ [TAB] @ ''GO:2'' @ [LF]],
      ''Species.txt'' \<mapsto>
        [''sp'' @ [TAB] @ ''comp'' @ [TAB] @ ''ic'' @ [LF],
         ''S1'' @ [TAB] @ ''Cytoplasm'' @ [TAB] @ ''100'' @ [LF]],
      ''StoicMat.txt'' \<mapsto>
        [[TAB] @ ''R1'' @ [TAB] @ ''R2'' @ [LF],
         ''S1'' @ [TAB] @ ''-1'' @ [TAB] @ ''0'' @ [LF]],
      ''Ratelaws.txt'' \<mapsto>
        [''rxn'' @ [TAB] @ ''comp'' @ [TAB] @ ''law'' @ [LF],
         ''v1'' @ [TAB] @ ''Cytoplasm'' @ [TAB] @ ''3'' @ [LF],
         ''v2'' @ [TAB] @ ''Cytoplasm'' @ [TAB] @ ''7'' @ [LF]]]"

definition ex_params :: "num params" where
  "ex_params = \<lparr>paramnames = [''k1'', ''k2''], paramvals = [Num 3, Num 7],
                 paramrxns = [''v1'', ''v2''], paramidxs = [0, 0]\<rparr>"

definition ex_model :: "num model" where
  "ex_model =
     \<lparr>model_text =
        header_text @ compartments_text [''Cytoplasm'', ''Nucleus'']
        @ species_text [(''S1'', ''Cytoplasm'')]
        @ reactions_text [Some (''  R1: S1 => ; (k1*S1)*Cytoplasm;'' @ [LF]), None]
        @ compartment_inits int_floats [(''Cytoplasm'', Num 5), (''Nucleus'', Num 2)]
        @ species_inits int_floats [(''S1'', Num 100)]
        @ param_inits int_floats ex_params @ footer_text,
      params_all = [(''k1'', Num 3, ''v1'', 0), (''k2'', Num 7, ''v2'', 0)],
      model_compartments =
        [[''comp'', ''vol'', ''ann''], [''Cytoplasm'', ''5'', ''GO:1''], [''Nucleus'', ''2'', ''GO:2'']],
      model_species = [[''sp'', ''comp'', ''ic''], [''S1'', ''Cytoplasm'', ''100'']]\<rparr>"

text \<open>Three species in two compartments and three observables, the second without members.\<close>

definition ex_compartments :: sheet where
  "ex_compartments = [[''comp'', ''vol''], [''Cytoplasm'', ''5''], [''Nucleus'', ''10'']]"

definition ex_species :: sheet where
  "ex_species = [[''sp'', ''comp''], [''A'', ''Cytoplasm''], [''B'', ''Nucleus''], [''C'', ''Nucleus'']]"

definition ex_obsmat :: "num obsmat" where
  "ex_obsmat =
     \<lparr>obs_index = [''A'', ''B'', ''C''],
      obs_columns = [(''o1'', [Num 1, Num 0, Num 0]), (''o2'', [Num 0, Num 0, Num 0]),
                     (''o3'', [Num 1, Num 2, Num 3])]\<rparr>"

text \<open>
  The formula of a column as the specification words it: every row of positive weight
  contributes its label, taken as the name of a species, times the volume of that
  species' compartment over \<open>Vc\<close>, times the weight. The species is looked up by its
  name in the species table.
\<close>

definition species_compartment_spec :: "sheet \<Rightarrow> string \<Rightarrow> string option" where
  "species_compartment_spec species_sheet name =
     (case find (\<lambda>row. nth_opt row 0 = Some name) (drop 1 species_sheet) of
        None \<Rightarrow> None
      | Some row \<Rightarrow> nth_opt row 1)"

definition obs_term_spec :: "'f floats \<Rightarrow> sheet \<Rightarrow> sheet \<Rightarrow> 'f \<Rightarrow> string \<Rightarrow> 'f \<Rightarrow> string option" where
  "obs_term_spec F compartment_sheet species_sheet Vc name w =
     (case species_compartment_spec species_sheet name of
        None \<Rightarrow> None
      | Some c \<Rightarrow>
          (case species_volume F compartment_sheet c of
             Inl e \<Rightarrow> None
           | Inr vol \<Rightarrow> Some (name @ ''*'' @ fl_str F (fl_mul F (fl_div F vol Vc) w))))"

definition obs_formula_spec :: "'f floats \<Rightarrow> sheet \<Rightarrow> sheet \<Rightarrow> 'f \<Rightarrow> string list \<Rightarrow> 'f list
    \<Rightarrow> string option" where
  "obs_formula_spec F compartment_sheet species_sheet Vc labels weights =
     (let ts = map (\<lambda>p. obs_term_spec F compartment_sheet species_sheet Vc (labels ! p) (weights ! p))
                    (filter (\<lambda>p. fl_pos F (weights ! p)) [0 ..< length weights])
      in if list_all (\<lambda>t. t \<noteq> None) ts then Some (join ''+'' (map the ts)) else None)"

text \<open>
  The observables of the example with the rows of the table in another order than the
  species table, and a table with two rows for the three species.
\<close>

definition ex_obsmat_reordered :: "num obsmat" where
  "ex_obsmat_reordered =
     \<lparr>obs_index = [''B'', ''A'', ''C''], obs_columns = [(''o1'', [Num 1, Num 0, Num 0])]\<rparr>"

definition ex_obsmat_short :: "num obsmat" where
  "ex_obsmat_short =
     \<lparr>obs_index = [''A'', ''B''], obs_columns = [(''o1'', [Num 0, Num 0])]\<rparr>"

text \<open>
  The annotation of a species as the specification words it: built from the columns
  after name, compartment and initial value.
\<close>

definition species_annot_spec :: "string list \<Rightarrow> string" where
  "species_annot_spec row = annot_loop (drop 3 row) []"

text \<open>The annotation of a species after a run of the annotator, if the run succeeds.\<close>

definition annotation_of :: "py_error + sbml_doc \<Rightarrow> string \<Rightarrow> string option" where
  "annotation_of res sid = (case res of Inl e \<Rightarrow> None | Inr doc \<Rightarrow> species_annotation doc sid)"

text \<open>A species row with two annotation columns, and a document with that species.\<close>

definition ex_annot_species :: sheet where
  "ex_annot_species =
     [[''sp'', ''comp'', ''ic'', ''a1'', ''a2''], [''S1'', ''Cytoplasm'', ''100'', ''HGNC:1'', ''ENS:2'']]"

definition ex_annot_compartments :: sheet where
  "ex_annot_compartments = [[''comp'', ''vol'', ''ann''], [''Cytoplasm'', ''5'', ''GO:1'']]"

definition ex_doc :: sbml_doc where
  "ex_doc = \<lparr>species_annotation = [''S1'' \<mapsto> ''''], compartment_annotation = [''Cytoplasm'' \<mapsto> '''']\<rparr>"

text \<open>
  An environment for the example tables: Antimony loads the text, the conversion
  returns \<open>rc\<close>, and the later external calls succeed.
\<close>

definition ex_sbml :: sbml_doc where
  "ex_sbml = \<lparr>species_annotation = [''S1'' \<mapsto> ''''],
              compartment_annotation = [''Cytoplasm'' \<mapsto> '''', ''Nucleus'' \<mapsto> '''']\<rparr>"

definition ex_env :: "int \<Rightarrow> num env" where
  "ex_env rc =
     \<lparr>files = ex_fs, ragged_ok = True, arith = int_floats,
      sb_loadFile = (\<lambda>t. 1), sb_writeSBMLFile = (\<lambda>t. rc), sbml_of = (\<lambda>t. ex_sbml),
      sbml_import = None,
      read_obsmat = Inr \<lparr>obs_index = [''S1''], obs_columns = [(''o1'', [Num 1])]\<rparr>,
      sbml2amici = (\<lambda>doc obs. None)\<rparr>"

section \<open>Properties of the table loader\<close>

lemma np_array_Inr: "np_array r rows = Inr g \<Longrightarrow> g = rows"
  by (auto simp: np_array_def split: if_splits)

text \<open>
  C6 (as the code has it). The loader removes all leading and trailing white space of
  each line (not only the line terminator), splits at the tabs and returns one row of
  strings per line, the header row included. A missing file aborts the run. Where
  NumPy refuses ragged input, a row whose number of fields differs from the header's
  aborts the run, and a returned grid is rectangular.
\<close>

theorem read_table_rows:
  "(fs path = None \<longrightarrow> read_table r fs path = Inl FileNotFoundError) \<and>
   (fs path = Some lines \<longrightarrow>
      (read_table r fs path = Inr g \<longrightarrow>
         g = map (\<lambda>line. split_on TAB (strip line)) lines \<and> (\<not> r \<longrightarrow> rectangular g)) \<and>
      (\<not> r \<and> (\<exists>i < length lines. length (parse_line (lines ! i)) \<noteq> length (parse_line (hd lines)))
         \<longrightarrow> read_table r fs path = Inl ValueError))"
proof (intro conjI impI)
  assume "fs path = None"
  then show "read_table r fs path = Inl FileNotFoundError"
    by (simp add: read_table_def)
next
  assume f: "fs path = Some lines" and g: "read_table r fs path = Inr g"
  from f g have "np_array r (map parse_line lines) = Inr g"
    by (simp add: read_table_def)
  then have "g = map parse_line lines"
    by (rule np_array_Inr)
  then show "g = map (\<lambda>line. split_on TAB (strip line)) lines"
    by (simp add: parse_line_def)
next
  assume f: "fs path = Some lines" and g: "read_table r fs path = Inr g" and "\<not> r"
  then show "rectangular g"
    by (auto simp: read_table_def np_array_def split: if_splits)
next
  assume f: "fs path = Some lines"
    and bad: "\<not> r \<and> (\<exists>i < length lines.
        length (parse_line (lines ! i)) \<noteq> length (parse_line (hd lines)))"
  then obtain i where i: "i < length lines"
    and ne: "length (parse_line (lines ! i)) \<noteq> length (parse_line (hd lines))"
    by blast
  from i have "lines \<noteq> []" by auto
  then have hd: "hd (map parse_line lines) = parse_line (hd lines)"
    by (simp add: hd_map)
  from i have "parse_line (lines ! i) \<in> set (map parse_line lines)"
    by simp
  with ne hd have "\<not> rectangular (map parse_line lines)"
    unfolding rectangular_def list_all_iff by metis
  with f bad show "read_table r fs path = Inl ValueError"
    by (simp add: read_table_def np_array_def)
qed

theorem read_table_rows_witness:
  "read_table False [''Compartments.txt'' \<mapsto> [''a'' @ [TAB] @ ''b'' @ [LF], '' c '' @ [TAB, LF]]]
      ''Compartments.txt'' = Inl ValueError
   \<and> read_table False [''Compartments.txt'' \<mapsto> []] ''Species.txt'' = Inl FileNotFoundError
   \<and> read_table True [''Compartments.txt'' \<mapsto> [''a'' @ [TAB] @ ''b'' @ [LF], '' c '' @ [TAB, LF]]]
      ''Compartments.txt'' = Inr [[''a'', ''b''], [''c'']]"
proof (intro conjI)
  let ?lines = "[''a'' @ [TAB] @ ''b'' @ [LF], '' c '' @ [TAB, LF]]"
  let ?fs = "[''Compartments.txt'' \<mapsto> ?lines]"
  have bad: "\<not> False \<and> (\<exists>i < length ?lines.
      length (parse_line (?lines ! i)) \<noteq> length (parse_line (hd ?lines)))"
    by (auto simp: parse_line_def strip_def strip_chars_def isspace_def intro!: exI [of _ 1])
  have some: "?fs ''Compartments.txt'' = Some ?lines"
    by simp
  from read_table_rows [of ?fs "''Compartments.txt''" False ?lines] some bad
  show "read_table False ?fs ''Compartments.txt'' = Inl ValueError"
    by blast
  have "[''Compartments.txt'' \<mapsto> ([] :: string list)] ''Species.txt'' = None"
    by simp
  with read_table_rows [of "[''Compartments.txt'' \<mapsto> []]" "''Species.txt''" False]
  show "read_table False [''Compartments.txt'' \<mapsto> []] ''Species.txt'' = Inl FileNotFoundError"
    by blast
  have run: "read_table True ?fs ''Compartments.txt'' = Inr [[''a'', ''b''], [''c'']]"
    by (simp add: read_table_def np_array_def parse_line_def strip_def strip_chars_def isspace_def)
  with read_table_rows [of ?fs "''Compartments.txt''" True ?lines "[[''a'', ''b''], [''c'']]"] some
  show "read_table True ?fs ''Compartments.txt'' = Inr [[''a'', ''b''], [''c'']]"
    by blast
qed

text \<open>
  C6 as stated fails: on a line with white space around a field, or with an empty
  last field, stripping only the terminator keeps what \<open>strip()\<close> removes.
\<close>

theorem read_table_strip_counterexample:
  "read_table True [''Species.txt'' \<mapsto> [''a'' @ [TAB] @ ''b'' @ [LF], '' c'' @ [TAB] @ ''d '' @ [LF]]]
      ''Species.txt''
   \<noteq> Inr (map parse_line_spec [''a'' @ [TAB] @ ''b'' @ [LF], '' c'' @ [TAB] @ ''d '' @ [LF]])"
  by (simp add: read_table_def np_array_def parse_line_def parse_line_spec_def strip_def
      strip_chars_def strip_terminator_def isspace_def)

section \<open>Properties of the reaction loop\<close>


lemma bind_err_simps [simp]:
  "bind_err (Inl e) f = Inl e" "bind_err (Inr x) f = f x"
  by (simp_all add: bind_err_def)

lemma bind_err_Inr: "bind_err m f = Inr y \<longleftrightarrow> (\<exists>x. m = Inr x \<and> f x = Inr y)"
  by (cases m) simp_all

lemma concat_replicate_comm: "concat (replicate n x) @ x = x @ concat (replicate n x)"
  by (induction n) simp_all

lemma add_reactant_eq:
  "add_reactant n name st = (fst st @ replicate n name, snd st @ concat (replicate n (name @ ''*'')))"
proof (induction n arbitrary: st)
  case 0
  show ?case by simp
next
  case (Suc n)
  have "name @ ''*'' @ concat (replicate n (name @ ''*''))
      = concat (replicate n (name @ ''*'')) @ name @ ''*''"
    using concat_replicate_comm [of n "name @ ''*''"] by simp
  then show ?case
    by (simp add: Suc.IH replicate_app_Cons_same)
qed

lemma add_product_eq: "add_product n name ps = ps @ replicate n name"
  by (induction n arbitrary: ps) (simp_all add: replicate_app_Cons_same)

lemma concat_stars_replicate:
  "concat (map (\<lambda>r. r @ ''*'') (replicate n name)) = concat (replicate n (name @ ''*''))"
  by (induction n) simp_all

lemma expand_stoic_ok:
  "stoic_ok k stoic \<Longrightarrow>
   expand_stoic k stoic (rs, ps, f) =
     Inr (rs @ expand_reactants k stoic, ps @ expand_products k stoic,
          f @ concat (map (\<lambda>r. r @ ''*'') (expand_reactants k stoic)))"
proof (induction stoic arbitrary: rs ps f)
  case Nil
  show ?case by (simp add: expand_reactants_def expand_products_def)
next
  case (Cons a stoic)
  obtain name data where a: "a = (name, data)" by (cases a)
  from Cons.prems a obtain cell v where cell: "nth_opt data k = Some cell" and v: "py_int cell = Some v"
    and rest: "stoic_ok k stoic"
    by (auto simp: stoic_ok_def split: option.splits)
  have sv: "stoic_value k data = v"
    by (simp add: stoic_value_def cell v)
  show ?case
  proof (cases "v < 0")
    case True
    then show ?thesis
      using cell v sv Cons.IH [OF rest]
      by (simp add: a add_reactant_eq expand_reactants_def expand_products_def concat_stars_replicate)
  next
    case False
    then show ?thesis
      using cell v sv Cons.IH [OF rest]
      by (simp add: a add_product_eq expand_reactants_def expand_products_def)
  qed
qed

lemma expand_stoic_not_ok: "\<not> stoic_ok k stoic \<Longrightarrow> \<exists>e. expand_stoic k stoic st = Inl e"
proof (induction stoic arbitrary: st)
  case Nil
  then show ?case by (simp add: stoic_ok_def)
next
  case (Cons a stoic)
  obtain name data where a: "a = (name, data)" by (cases a)
  obtain rs ps f where st: "st = (rs, ps, f)" by (cases st)
  show ?case
  proof (cases "stoic_ok k stoic")
    case True
    with Cons.prems a show ?thesis
      by (auto simp: st stoic_ok_def split: option.splits)
  next
    case False
    from Cons.IH [OF False] show ?thesis
      by (auto simp: st a split: option.splits)
  qed
qed

lemma expand_stoic_Inr:
  assumes "expand_stoic k stoic (rs, ps, f) = Inr st"
  shows "stoic_ok k stoic \<and>
     st = (rs @ expand_reactants k stoic, ps @ expand_products k stoic,
           f @ concat (map (\<lambda>r. r @ ''*'') (expand_reactants k stoic)))"
proof -
  have ok: "stoic_ok k stoic"
    using assms expand_stoic_not_ok [of k stoic "(rs, ps, f)"] by auto
  with assms expand_stoic_ok [OF ok, of rs ps f] show ?thesis by simp
qed

lemma butlast_stars:
  "butlast (x @ ''*'' @ concat (map (\<lambda>r. r @ ''*'') rs)) = join ''*'' (x # rs)"
proof (induction rs arbitrary: x)
  case Nil
  show ?case by (simp add: butlast_append)
next
  case (Cons r rs)
  have "butlast (x @ ''*'' @ concat (map (\<lambda>r. r @ ''*'') (r # rs)))
      = x @ ''*'' @ butlast (r @ ''*'' @ concat (map (\<lambda>r. r @ ''*'') rs))"
    by (simp add: butlast_append)
  with Cons.IH [of r] show ?case by simp
qed

lemma nth_opt_drop: "nth_opt (drop n xs) i = nth_opt xs (n + i)"
  by (auto simp: nth_opt_def)

lemma nth_opt_drop1: "nth_opt (drop 1 row) 1 = nth_opt row 2"
  using nth_opt_drop [of 1 row 1] by (simp add: numeral_2_eq_2)

lemma rate_formula_mass:
  assumes "nth_opt row 2 = Some field" and "CHR ''k'' \<notin> set field"
  shows "rate_formula F k row f ps =
     (case to_float F field of
        None \<Rightarrow> Inl ValueError
      | Some v \<Rightarrow> Inr (butlast f, add_param (kname k) v (row ! 0) 0 ps))"
  unfolding rate_formula_def Let_def nth_opt_drop1 using assms by simp

lemma reaction_row_unfold:
  "reaction_row F cols stoic k row ps =
     (if stoic_ok k stoic then
        bind_err (rate_formula F k row
            (''k'' @ str_nat (k + 1) @ ''*'' @ concat (map (\<lambda>r. r @ ''*'') (expand_reactants k stoic))) ps)
          (\<lambda>(formula', ps').
             if expand_products k stoic = [] \<and> expand_reactants k stoic = [] then Inr (None, ps')
             else bind_err (index cols k)
               (\<lambda>rxn. Inr (Some (reaction_line rxn (expand_reactants k stoic)
                   (expand_products k stoic) formula' (row ! 1)), ps')))
      else Inl (case expand_stoic k stoic ([], [], ''k'' @ str_nat (k + 1) @ ''*'') of
                  Inl e \<Rightarrow> e | Inr x \<Rightarrow> ValueError))"
proof (cases "stoic_ok k stoic")
  case True
  show ?thesis
    by (simp add: reaction_row_def expand_stoic_ok [OF True] True)
next
  case False
  from expand_stoic_not_ok [OF False, of "([], [], ''k'' @ str_nat (k + 1) @ ''*'')"]
  obtain e where "expand_stoic k stoic ([], [], ''k'' @ str_nat (k + 1) @ ''*'') = Inl e" ..
  with False show ?thesis
    by (simp add: reaction_row_def)
qed

text \<open>
  C1. A row whose rate-law field holds no \<open>k\<close> is plain mass action. The row is
  processed without error exactly when every stoichiometric cell of its column is an
  integer, the field is a number and, if a line is written, the reaction has a name;
  then exactly one parameter is appended, named \<open>k\<close> followed by the reaction number,
  with the value of the field, the reaction's label and position 0, and the formula
  of the line written is that name times the expanded reactants, one factor for each
  unit of negative stoichiometry.
\<close>

theorem mass_action_row:
  assumes "nth_opt row 2 = Some field" and "CHR ''k'' \<notin> set field"
  shows "reaction_row F cols stoic rowNum row ps = Inr (out, ps') \<longleftrightarrow>
     stoic_ok rowNum stoic \<and>
     (\<exists>v. to_float F field = Some v \<and>
          ps' = add_param (''k'' @ str_nat (rowNum + 1)) v (row ! 0) 0 ps) \<and>
     (if expand_products rowNum stoic = [] \<and> expand_reactants rowNum stoic = [] then out = None
      else \<exists>rxn. index cols rowNum = Inr rxn \<and>
             out = Some (''  '' @ rxn @ '': '' @ join '' + '' (expand_reactants rowNum stoic)
                     @ '' => '' @ join '' + '' (expand_products rowNum stoic) @ ''; (''
                     @ join ''*'' ((''k'' @ str_nat (rowNum + 1)) # expand_reactants rowNum stoic)
                     @ '')*'' @ row ! 1 @ '';'' @ [LF]))"
proof (cases "stoic_ok rowNum stoic")
  case False
  then show ?thesis by (simp add: reaction_row_unfold)
next
  case ok: True
  show ?thesis
  proof (cases "to_float F field")
    case None
    then show ?thesis
      by (simp add: reaction_row_unfold ok rate_formula_mass [OF assms])
  next
    case (Some v)
    have f: "butlast (''k'' @ str_nat (rowNum + 1) @ ''*''
               @ concat (map (\<lambda>r. r @ ''*'') (expand_reactants rowNum stoic)))
        = join ''*'' ((''k'' @ str_nat (rowNum + 1)) # expand_reactants rowNum stoic)"
      using butlast_stars [of "''k'' @ str_nat (rowNum + 1)" "expand_reactants rowNum stoic"]
      by simp
    show ?thesis
    proof (cases "expand_products rowNum stoic = [] \<and> expand_reactants rowNum stoic = []")
      case True
      then show ?thesis
        using Some by (auto simp: reaction_row_unfold ok rate_formula_mass [OF assms] kname_def)
    next
      case False
      then show ?thesis
        using Some f
        by (cases "index cols rowNum")
           (auto simp: reaction_row_unfold ok rate_formula_mass [OF assms] kname_def
              reaction_line_def)
    qed
  qed
qed

lemma int_floats_simps [simp]:
  "to_float int_floats s =
     (if strip_chars isspace_number s = ''nan'' then Some NaN else map_option Num (py_int s))"
  "is_nan int_floats v = (v = NaN)"
  "fmt_e int_floats = num_str" "fl_str int_floats = num_str"
  "fl_div int_floats = num_op (div)" "fl_mul int_floats = num_op (*)"
  "fl_pos int_floats = num_pos"
  by (simp_all add: int_floats_def)

lemmas text_eval =
  strip_def strip_chars_def isspace_def isspace_number_def isdigit_def digit_val_def digit_char_def
  py_int_def int_digits_def str_nat.simps nth_opt_def index_def

theorem mass_action_row_witness:
  "nth_opt [''v1'', ''Cyt'', ''5''] 2 = Some ''5'' \<and> CHR ''k'' \<notin> set ''5'' \<and>
   reaction_row int_floats [''R1''] [(''A'', [''-2'']), (''B'', [''1''])] 0 [''v1'', ''Cyt'', ''5'']
       no_params
     = Inr (Some (''  R1: A + A => B; (k1*A*A)*Cyt;'' @ [LF]),
            \<lparr>paramnames = [''k1''], paramvals = [Num 5], paramrxns = [''v1''], paramidxs = [0]\<rparr>)"
proof -
  have h1: "nth_opt [''v1'', ''Cyt'', ''5''] 2 = Some ''5''"
    by (simp add: nth_opt_def)
  have h2: "CHR ''k'' \<notin> set ''5''"
    by simp
  have ok: "stoic_ok 0 [(''A'', [''-2'']), (''B'', [''1''])]"
    by (simp add: stoic_ok_def text_eval)
  have rs: "expand_reactants 0 [(''A'', [''-2'']), (''B'', [''1''])] = [''A'', ''A'']"
    by (simp add: expand_reactants_def stoic_value_def text_eval numeral_2_eq_2)
  have ps: "expand_products 0 [(''A'', [''-2'']), (''B'', [''1''])] = [''B'']"
    by (simp add: expand_products_def stoic_value_def text_eval)
  have v: "to_float int_floats ''5'' = Some (Num 5)"
    by (simp add: text_eval)
  show ?thesis
    using mass_action_row [OF h1 h2, of int_floats "[''R1'']" "[(''A'', [''-2'']), (''B'', [''1''])]" 0
        no_params "Some (''  R1: A + A => B; (k1*A*A)*Cyt;'' @ [LF])"
        "\<lparr>paramnames = [''k1''], paramvals = [Num 5], paramrxns = [''v1''], paramidxs = [0]\<rparr>"]
      h1 h2 ok rs ps v
    by (simp add: add_param_def no_params_def reaction_line_def text_eval)
qed

lemma subst_matches_foldl: "subst_matches ms name f = foldl (\<lambda>g m. replace m name g) f ms"
  by (induction ms arbitrary: f) simp_all

lemma subst_matches_finditer:
  "subst_matches (finditer pat f) name f = replace_tokens pat name f"
  by (simp add: subst_matches_foldl replace_tokens_def)

lemma length_drop_nan:
  "length (drop_nan (map (loose_float F) toks)) = length (filter (\<lambda>tok. loose_float F tok \<noteq> None) toks)"
  by (induction toks) (auto simp: drop_nan_def split: option.splits)

lemma concat_filter_nonempty: "concat (filter (\<lambda>r. r \<noteq> []) xss) = concat xss"
  by (induction xss) simp_all

lemma genfromtxt_count:
  "genfromtxt F cells = Inr arr \<Longrightarrow> length (drop_nan arr) = length (numeric_tokens F cells)"
  by (auto simp: genfromtxt_def numeric_tokens_def Let_def length_drop_nan concat_filter_nonempty
      split: if_splits)

lemma take_Suc_drop: "i < length xs \<Longrightarrow> take (Suc n) (drop i xs) = xs ! i # take n (drop (Suc i) xs)"
  by (simp add: Cons_nth_drop_Suc [symmetric])

lemma param_loop_Inr:
  "param_loop F k rxn ratelaw n q j (f, ps) = Inr (f', ps') \<Longrightarrow>
     paramnames ps' = paramnames ps @ map (kname_j k) [j ..< j + n] \<and>
     paramidxs ps' = paramidxs ps @ [q ..< q + n] \<and>
     paramrxns ps' = paramrxns ps @ replicate n rxn \<and>
     n \<le> length ratelaw - (j + 1) \<and>
     (\<exists>vs. paramvals ps' = paramvals ps @ vs \<and>
           map Some vs = map (to_float F) (take n (drop (j + 1) ratelaw))) \<and>
     f' = foldl (\<lambda>g i. replace_tokens (pattern1 i) (kname_j k i) g) f [j ..< j + n]"
proof (induction n arbitrary: q j f ps)
  case 0
  then show ?case by simp
next
  case (Suc n)
  from Suc.prems obtain cell v where cell: "nth_opt ratelaw (j + 1) = Some cell"
    and v: "to_float F cell = Some v"
    and rest: "param_loop F k rxn ratelaw n (q + 1) (j + 1)
        (replace_tokens (pattern1 j) (kname_j k j) f, add_param (kname_j k j) v rxn q ps) = Inr (f', ps')"
    by (auto simp: subst_matches_finditer split: option.splits)
  from cell have lt: "j + 1 < length ratelaw" and c: "ratelaw ! (j + 1) = cell"
    by (auto simp: nth_opt_def split: if_splits)
  note ih = Suc.IH [OF rest]
  from ih obtain vs where vs: "paramvals ps' = paramvals (add_param (kname_j k j) v rxn q ps) @ vs"
    and vals: "map Some vs = map (to_float F) (take n (drop (j + 1 + 1) ratelaw))"
    by blast
  have upt: "[j ..< Suc (j + n)] = j # [Suc j ..< Suc (j + n)]"
    by (simp add: upt_conv_Cons)
  have uptq: "[q ..< Suc (q + n)] = q # [Suc q ..< Suc (q + n)]"
    by (simp add: upt_conv_Cons)
  have tk: "take (Suc n) (drop (j + 1) ratelaw) = cell # take n (drop (j + 1 + 1) ratelaw)"
    using lt c take_Suc_drop [of "j + 1" ratelaw n] by simp
  have "paramvals ps' = paramvals ps @ (v # vs) \<and>
      map Some (v # vs) = map (to_float F) (take (Suc n) (drop (j + 1) ratelaw))"
    using vs vals v tk by (simp add: add_param_def)
  then have ex: "\<exists>vs. paramvals ps' = paramvals ps @ vs \<and>
      map Some vs = map (to_float F) (take (Suc n) (drop (j + 1) ratelaw))"
    by blast
  from ih have "paramnames ps' = paramnames ps @ map (kname_j k) [j ..< j + Suc n]"
    by (simp add: upt add_param_def del: upt_Suc)
  moreover from ih have "paramidxs ps' = paramidxs ps @ [q ..< q + Suc n]"
    by (simp add: uptq add_param_def del: upt_Suc)
  moreover from ih have "paramrxns ps' = paramrxns ps @ replicate (Suc n) rxn"
    by (simp add: add_param_def replicate_app_Cons_same)
  moreover have "Suc n \<le> length ratelaw - (j + 1)"
  proof -
    from ih have "n \<le> length ratelaw - (j + 1 + 1)" by blast
    with lt show ?thesis by arith
  qed
  moreover from ih have "f' = foldl (\<lambda>g i. replace_tokens (pattern1 i) (kname_j k i) g) f [j ..< j + Suc n]"
    by (simp add: upt del: upt_Suc)
  ultimately show ?case using ex by blast
qed

lemma rate_formula_template:
  assumes field: "nth_opt row 2 = Some field" and k: "CHR ''k'' \<in> set field"
    and run: "rate_formula F rowNum row formula ps = Inr (formula', ps')"
  defines "n \<equiv> length (numeric_tokens F (drop 3 row))"
  shows "paramnames ps' = paramnames ps @ map (kname_j rowNum) [1 ..< n + 1] \<and>
     paramidxs ps' = paramidxs ps @ [0 ..< n] \<and>
     paramrxns ps' = paramrxns ps @ replicate n (row ! 0) \<and>
     n \<le> length (drop 3 row) \<and>
     (\<exists>vs. paramvals ps' = paramvals ps @ vs \<and>
           map Some vs = map (to_float F) (take n (drop 3 row))) \<and>
     formula' = (if n = 1 then replace_tokens pattern (kname_j rowNum 1) field
                 else replace_indexed rowNum n field)"
proof -
  have d3: "drop 2 (drop 1 row) = drop 3 row"
    by simp
  from run field k obtain arr where arr: "genfromtxt F (drop 3 row) = Inr arr"
    and body: "(if length (drop_nan arr) = 1 then
         (case nth_opt (drop 1 row) 2 of
            None \<Rightarrow> Inl IndexError
          | Some cell \<Rightarrow>
              (case to_float F cell of
                 None \<Rightarrow> Inl ValueError
               | Some v \<Rightarrow>
                   Inr (subst_matches (finditer pattern field) (kname_j rowNum 1) field,
                        add_param (kname_j rowNum 1) v (row ! 0) 0 ps)))
       else param_loop F rowNum (row ! 0) (drop 1 row) (length (drop_nan arr)) 0 1 (field, ps))
      = Inr (formula', ps')"
    unfolding rate_formula_def Let_def nth_opt_drop1 d3
    by (auto split: sum.splits)
  have n: "length (drop_nan arr) = n"
    unfolding n_def by (rule genfromtxt_count [OF arr])
  show ?thesis
  proof (cases "n = 1")
    case True
    with body n obtain cell v where cell: "nth_opt (drop 1 row) 2 = Some cell"
      and v: "to_float F cell = Some v"
      and f: "formula' = replace_tokens pattern (kname_j rowNum 1) field"
      and p: "ps' = add_param (kname_j rowNum 1) v (row ! 0) 0 ps"
      by (auto simp: subst_matches_finditer split: option.splits)
    from cell have lt: "3 < length row" and c: "row ! 3 = cell"
      by (auto simp: nth_opt_def numeral_3_eq_3 split: if_splits)
    have tk: "take 1 (drop 3 row) = [cell]"
      using lt c take_Suc_drop [of 3 row 0] by simp
    have "paramvals ps' = paramvals ps @ [v] \<and> map Some [v] = map (to_float F) (take n (drop 3 row))"
      using True tk v p by (simp add: add_param_def)
    then have "\<exists>vs. paramvals ps' = paramvals ps @ vs \<and>
        map Some vs = map (to_float F) (take n (drop 3 row))"
      by blast
    then show ?thesis
      using True f p lt by (simp add: add_param_def)
  next
    case False
    with body n have loop: "param_loop F rowNum (row ! 0) (drop 1 row) n 0 1 (field, ps) = Inr (formula', ps')"
      by simp
    from param_loop_Inr [OF loop] False show ?thesis
      by (simp add: replace_indexed_def numeral_3_eq_3)
  qed
qed

subsection \<open>Replacing a matched text and replacing a token\<close>

lemma finditer_none_sub_tokens: "finditer pat s = [] \<Longrightarrow> sub_tokens pat name s = s"
proof (induction pat s rule: finditer.induct)
  case (1 pat s)
  show ?case
  proof (cases "s = []")
    case True
    then show ?thesis by (simp add: sub_tokens.simps)
  next
    case ne: False
    show ?thesis
    proof (cases "match_len pat s = 0")
      case True
      with ne "1.prems" have "finditer pat (tl s) = []"
        by (subst (asm) finditer.simps) simp
      from "1.IH"(1) [OF ne True this] have "sub_tokens pat name (tl s) = tl s" .
      with ne True show ?thesis
        by (subst sub_tokens.simps) simp
    next
      case False
      with ne "1.prems" show ?thesis
        by (subst (asm) finditer.simps) simp
    qed
  qed
qed

lemma finditer_single_sub_tokens:
  "finditer pat s = [tok] \<Longrightarrow>
     \<exists>pre post. s = pre @ tok @ post \<and> tok \<noteq> [] \<and> sub_tokens pat name s = pre @ name @ post"
proof (induction pat s rule: finditer.induct)
  case (1 pat s)
  show ?case
  proof (cases "s = []")
    case True
    with "1.prems" show ?thesis
      by (subst (asm) finditer.simps) simp
  next
    case ne: False
    show ?thesis
    proof (cases "match_len pat s = 0")
      case True
      with ne "1.prems" have "finditer pat (tl s) = [tok]"
        by (subst (asm) finditer.simps) simp
      from "1.IH"(1) [OF ne True this] obtain pre post
        where a: "tl s = pre @ tok @ post" "tok \<noteq> []"
          "sub_tokens pat name (tl s) = pre @ name @ post"
        by blast
      from ne a(1) have "s = (hd s # pre) @ tok @ post"
        by (cases s) simp_all
      moreover from ne True a(3) have "sub_tokens pat name s = (hd s # pre) @ name @ post"
        by (subst sub_tokens.simps) simp
      ultimately show ?thesis
        using a(2) by blast
    next
      case False
      with ne "1.prems" have tok: "tok = take (match_len pat s) s"
        and rest: "finditer pat (drop (match_len pat s) s) = []"
        by (subst (asm) finditer.simps, simp)+
      from rest have "sub_tokens pat name (drop (match_len pat s) s) = drop (match_len pat s) s"
        by (rule finditer_none_sub_tokens)
      with ne False have "sub_tokens pat name s = [] @ name @ drop (match_len pat s) s"
        by (subst sub_tokens.simps) simp
      moreover have "s = [] @ tok @ drop (match_len pat s) s"
        by (simp add: tok)
      moreover from ne False have "tok \<noteq> []"
        by (simp add: tok)
      ultimately show ?thesis by blast
    qed
  qed
qed

lemma replace_no_occurrence:
  "old \<noteq> [] \<Longrightarrow> occurrences old s = 0 \<Longrightarrow> replace old new s = s"
proof (induction s)
  case Nil
  then show ?case by (simp add: replace.simps)
next
  case (Cons c cs)
  from Cons.prems have h: "take (length old) (c # cs) \<noteq> old" and r: "occurrences old cs = 0"
    by (auto split: if_splits)
  from Cons.IH [OF Cons.prems(1) r] h Cons.prems(1) show ?case
    by (subst replace.simps) simp
qed

lemma occurrences_suffix: "occurrences old (a @ b) = 0 \<Longrightarrow> occurrences old b = 0"
  by (induction a) simp_all

lemma occurrences_present: "old \<noteq> [] \<Longrightarrow> 1 \<le> occurrences old (a @ old @ b)"
proof (induction a)
  case Nil
  then show ?case by (cases old) simp_all
next
  case (Cons x a)
  then show ?case by simp
qed

lemma replace_single_occurrence:
  "old \<noteq> [] \<Longrightarrow> occurrences old (pre @ old @ post) = 1 \<Longrightarrow>
     replace old new (pre @ old @ post) = pre @ new @ post"
proof (induction pre)
  case Nil
  from Nil.prems(1) obtain c cs where old: "old = c # cs"
    by (cases old) auto
  from Nil.prems(2) have "occurrences old (cs @ post) = 0"
    by (simp add: old)
  then have "occurrences old post = 0"
    by (rule occurrences_suffix)
  from replace_no_occurrence [OF Nil.prems(1) this] have "replace old new post = post" .
  then show ?case
    using Nil.prems(1) by (subst replace.simps) simp
next
  case (Cons x pre)
  from occurrences_present [OF Cons.prems(1), of pre post]
  have ge: "1 \<le> occurrences old (pre @ old @ post)" .
  with Cons.prems(2) have h: "take (length old) (x # pre @ old @ post) \<noteq> old"
    and one: "occurrences old (pre @ old @ post) = 1"
    by (auto split: if_splits)
  from Cons.IH [OF Cons.prems(1) one] h Cons.prems(1) show ?case
    by (subst replace.simps) simp
qed

text \<open>
  Where the pattern matches at most one token, whose text occurs once, the replacement
  the code makes is the replacement of the token.
\<close>

lemma replace_tokens_single:
  assumes "single_token pat s"
  shows "replace_tokens pat name s = sub_tokens pat name s"
proof (cases "finditer pat s")
  case Nil
  then show ?thesis
    by (simp add: replace_tokens_def finditer_none_sub_tokens)
next
  case (Cons tok rest)
  with assms have rest: "rest = []" and occ: "occurrences tok s = 1"
    by (auto simp: single_token_def split: list.splits)
  from Cons rest have f: "finditer pat s = [tok]" by simp
  from finditer_single_sub_tokens [OF f, of name] obtain pre post
    where s: "s = pre @ tok @ post" and ne: "tok \<noteq> []"
      and sub: "sub_tokens pat name s = pre @ name @ post"
    by blast
  from occ s have "occurrences tok (pre @ tok @ post) = 1" by simp
  from replace_single_occurrence [OF ne this] s have "replace tok name s = pre @ name @ post"
    by simp
  with sub f show ?thesis
    by (simp add: replace_tokens_def)
qed

lemma replace_indexed_Suc:
  "replace_indexed rowNum (Suc n) formula =
     replace_tokens (pattern1 (Suc n)) (kname_j rowNum (Suc n)) (replace_indexed rowNum n formula)"
  by (simp add: replace_indexed_def)

lemma sub_indexed_Suc:
  "sub_indexed rowNum (Suc n) formula =
     sub_tokens (pattern1 (Suc n)) (kname_j rowNum (Suc n)) (sub_indexed rowNum n formula)"
  by (simp add: sub_indexed_def)

lemma single_tokens_Suc:
  "single_tokens rowNum (Suc n) formula \<longleftrightarrow>
     single_tokens rowNum n formula \<and>
     single_token (pattern1 (Suc n)) (sub_indexed rowNum n formula)"
  by (simp add: single_tokens_def)

lemma replace_indexed_single:
  "single_tokens rowNum n formula \<Longrightarrow> replace_indexed rowNum n formula = sub_indexed rowNum n formula"
proof (induction n)
  case 0
  show ?case by (simp add: replace_indexed_def sub_indexed_def)
next
  case (Suc n)
  from Suc.prems have a: "single_tokens rowNum n formula"
    and b: "single_token (pattern1 (Suc n)) (sub_indexed rowNum n formula)"
    by (simp_all add: single_tokens_Suc)
  from Suc.IH [OF a] replace_tokens_single [OF b] show ?case
    by (simp add: replace_indexed_Suc sub_indexed_Suc)
qed

text \<open>
  The values that \<open>genfromtxt\<close> reads as numbers are the numbers of the tokens it does
  not take for missing.
\<close>

lemma Some_drop_nan: "map Some (drop_nan arr) = filter (\<lambda>x. x \<noteq> None) arr"
  by (induction arr) (auto simp: drop_nan_def split: option.splits)

lemma genfromtxt_values:
  assumes "genfromtxt F cells = Inr arr"
  shows "map Some (drop_nan arr) = map (to_float F) (numeric_tokens F cells)"
proof -
  from assms have arr: "arr = map (loose_float F) (concat (map split_line cells))"
    by (auto simp: genfromtxt_def Let_def concat_filter_nonempty split: if_splits)
  have "filter (\<lambda>x. x \<noteq> None) (map (loose_float F) toks)
      = map (to_float F) (filter (\<lambda>tok. loose_float F tok \<noteq> None) toks)" for toks
    by (induction toks) (auto simp: loose_float_def split: option.splits if_splits)
  then show ?thesis
    by (simp add: Some_drop_nan arr numeric_tokens_def)
qed

lemma rate_formula_genfromtxt:
  assumes "nth_opt row 2 = Some field" and "CHR ''k'' \<in> set field"
    and "rate_formula F rowNum row formula ps = Inr (formula', ps')"
  shows "\<exists>arr. genfromtxt F (drop 3 row) = Inr arr"
proof -
  have d3: "drop 2 (drop 1 row) = drop 3 row"
    by simp
  from assms show ?thesis
    unfolding rate_formula_def Let_def nth_opt_drop1 d3
    by (auto split: sum.splits)
qed

text \<open>
  C2 (as the code has it). A row whose rate-law field holds a \<open>k\<close> is a formula
  template. If the row is processed without error, then with \<open>n\<close> the number of
  non-missing numeric values that \<open>genfromtxt\<close> reads in the trailing columns (the
  fields after the template), exactly \<open>n\<close> parameters are appended: their names are
  \<open>k<i>_1, ..., k<i>_n\<close> for the reaction number \<open>i\<close>, their positions \<open>0, ..., n-1\<close>, and
  the value of the \<open>j\<close>-th is the number in the \<open>j\<close>-th trailing column; these are the
  non-missing values themselves where the first \<open>n\<close> trailing columns are the tokens
  read as such. The formula of the line written is the template after the textual
  replacements of lines 153 to 157 and 165 to 168: for one parameter every text
  matched by \<open>k\D*\d*\<close> is replaced, wherever it occurs in the formula as it then
  stands, by \<open>k<i>_1\<close>; for several parameters the same is done for \<open>j = 1, ..., n\<close> in
  turn with the pattern \<open>k(\D*)\d*_<j>\<close> and the name \<open>k<i>_<j>\<close>. Where each pattern
  matches at most one token of the formula and the text of that token occurs once,
  this is the template with every token replaced by the name of its parameter.
\<close>

theorem template_row:
  assumes "nth_opt row 2 = Some field" and "CHR ''k'' \<in> set field"
    and "reaction_row F cols stoic rowNum row ps = Inr (out, ps')"
  shows "\<exists>arr n vs formula.
     genfromtxt F (drop 3 row) = Inr arr \<and> n = length (drop_nan arr) \<and>
     n = length (numeric_tokens F (drop 3 row)) \<and> n \<le> length (drop 3 row) \<and>
     paramnames ps' = paramnames ps
        @ map (\<lambda>j. ''k'' @ str_nat (rowNum + 1) @ ''_'' @ str_nat j) [1 ..< n + 1] \<and>
     paramidxs ps' = paramidxs ps @ [0 ..< n] \<and>
     paramrxns ps' = paramrxns ps @ replicate n (row ! 0) \<and>
     paramvals ps' = paramvals ps @ vs \<and>
     map Some vs = map (to_float F) (take n (drop 3 row)) \<and>
     (take n (drop 3 row) = numeric_tokens F (drop 3 row) \<longrightarrow> vs = drop_nan arr) \<and>
     formula =
       (if n = 1 then
          foldl (\<lambda>f m. replace m (''k'' @ str_nat (rowNum + 1) @ ''_'' @ str_nat 1) f) field
            (finditer pattern field)
        else
          foldl (\<lambda>f j. foldl (\<lambda>f m. replace m (''k'' @ str_nat (rowNum + 1) @ ''_'' @ str_nat j) f) f
                          (finditer (pattern1 j) f))
            field [1 ..< n + 1]) \<and>
     (n = 1 \<and> single_token pattern field \<longrightarrow>
        formula = sub_tokens pattern (''k'' @ str_nat (rowNum + 1) @ ''_'' @ str_nat 1) field) \<and>
     (n \<noteq> 1 \<and> single_tokens rowNum n field \<longrightarrow> formula = sub_indexed rowNum n field) \<and>
     (if expand_products rowNum stoic = [] \<and> expand_reactants rowNum stoic = [] then out = None
      else \<exists>rxn. index cols rowNum = Inr rxn \<and>
             out = Some (''  '' @ rxn @ '': '' @ join '' + '' (expand_reactants rowNum stoic)
                     @ '' => '' @ join '' + '' (expand_products rowNum stoic) @ ''; ('' @ formula
                     @ '')*'' @ row ! 1 @ '';'' @ [LF]))"
proof -
  let ?f0 = "''k'' @ str_nat (rowNum + 1) @ ''*''
      @ concat (map (\<lambda>r. r @ ''*'') (expand_reactants rowNum stoic))"
  from assms(3) have ok: "stoic_ok rowNum stoic"
    by (auto simp: reaction_row_unfold split: if_splits)
  with assms(3) obtain formula where rf: "rate_formula F rowNum row ?f0 ps = Inr (formula, ps')"
    and line: "(if expand_products rowNum stoic = [] \<and> expand_reactants rowNum stoic = []
         then Inr (None, ps')
         else bind_err (index cols rowNum)
           (\<lambda>rxn. Inr (Some (reaction_line rxn (expand_reactants rowNum stoic)
               (expand_products rowNum stoic) formula (row ! 1)), ps'))) = Inr (out, ps')"
    by (auto simp: reaction_row_unfold bind_err_Inr split: if_splits)
  from rate_formula_genfromtxt [OF assms(1) assms(2) rf]
  obtain arr where arr: "genfromtxt F (drop 3 row) = Inr arr" ..
  define n where "n = length (numeric_tokens F (drop 3 row))"
  have na: "n = length (drop_nan arr)"
    unfolding n_def by (rule genfromtxt_count [OF arr, symmetric])
  note t = rate_formula_template [OF assms(1) assms(2) rf, folded n_def]
  from t obtain vs where vs: "paramvals ps' = paramvals ps @ vs"
    "map Some vs = map (to_float F) (take n (drop 3 row))"
    by blast
  from t have fe: "formula = (if n = 1 then replace_tokens pattern (kname_j rowNum 1) field
      else replace_indexed rowNum n field)"
    by blast
  have agree: "vs = drop_nan arr" if "take n (drop 3 row) = numeric_tokens F (drop 3 row)"
  proof -
    from vs(2) that genfromtxt_values [OF arr] have "map Some vs = map Some (drop_nan arr)"
      by simp
    then show ?thesis
      by (simp add: inj_map_eq_map)
  qed
  have out: "(if expand_products rowNum stoic = [] \<and> expand_reactants rowNum stoic = [] then out = None
      else \<exists>rxn. index cols rowNum = Inr rxn \<and>
             out = Some (''  '' @ rxn @ '': '' @ join '' + '' (expand_reactants rowNum stoic)
                     @ '' => '' @ join '' + '' (expand_products rowNum stoic) @ ''; ('' @ formula
                     @ '')*'' @ row ! 1 @ '';'' @ [LF]))"
    using line by (auto simp: bind_err_Inr reaction_line_def split: if_splits)
  show ?thesis
  proof (intro exI conjI)
    show "genfromtxt F (drop 3 row) = Inr arr"
      by (rule arr)
    show "n = length (drop_nan arr)"
      by (rule na)
    show "n = length (numeric_tokens F (drop 3 row))"
      by (rule n_def)
    show "n \<le> length (drop 3 row)"
      using t by blast
    show "paramnames ps' = paramnames ps
        @ map (\<lambda>j. ''k'' @ str_nat (rowNum + 1) @ ''_'' @ str_nat j) [1 ..< n + 1]"
      using t unfolding kname_j_def by blast
    show "paramidxs ps' = paramidxs ps @ [0 ..< n]"
      using t by blast
    show "paramrxns ps' = paramrxns ps @ replicate n (row ! 0)"
      using t by blast
    show "paramvals ps' = paramvals ps @ vs"
      by (rule vs)
    show "map Some vs = map (to_float F) (take n (drop 3 row))"
      by (rule vs)
    show "take n (drop 3 row) = numeric_tokens F (drop 3 row) \<longrightarrow> vs = drop_nan arr"
      using agree by blast
    show "formula =
       (if n = 1 then
          foldl (\<lambda>f m. replace m (''k'' @ str_nat (rowNum + 1) @ ''_'' @ str_nat 1) f) field
            (finditer pattern field)
        else
          foldl (\<lambda>f j. foldl (\<lambda>f m. replace m (''k'' @ str_nat (rowNum + 1) @ ''_'' @ str_nat j) f) f
                          (finditer (pattern1 j) f))
            field [1 ..< n + 1])"
      unfolding fe replace_indexed_def replace_tokens_def kname_j_def ..
    show "n = 1 \<and> single_token pattern field \<longrightarrow>
        formula = sub_tokens pattern (''k'' @ str_nat (rowNum + 1) @ ''_'' @ str_nat 1) field"
      using replace_tokens_single [of pattern field "kname_j rowNum 1"]
      by (auto simp: fe kname_j_def)
    show "n \<noteq> 1 \<and> single_tokens rowNum n field \<longrightarrow> formula = sub_indexed rowNum n field"
      using replace_indexed_single [of rowNum n field] by (auto simp: fe)
    show "if expand_products rowNum stoic = [] \<and> expand_reactants rowNum stoic = [] then out = None
      else \<exists>rxn. index cols rowNum = Inr rxn \<and>
             out = Some (''  '' @ rxn @ '': '' @ join '' + '' (expand_reactants rowNum stoic)
                     @ '' => '' @ join '' + '' (expand_products rowNum stoic) @ ''; ('' @ formula
                     @ '')*'' @ row ! 1 @ '';'' @ [LF])"
      by (rule out)
  qed
qed

lemmas regex_eval = finditer.simps replace.simps match_len_def pattern_def pattern1_def

lemma ex_template_row:
  "reaction_row int_floats [''R1'', ''R2''] [(''A'', [''0'', ''-1''])] 1
       [''v2'', ''Cyt'', ''k1_1*A/(k1_2+A)'', ''3'', ''4'', ''nan''] no_params
     = Inr (Some (''  R2: A => ; (k2_1*A/(k2_2+A))*Cyt;'' @ [LF]),
            \<lparr>paramnames = [''k2_1'', ''k2_2''], paramvals = [Num 3, Num 4],
             paramrxns = [''v2'', ''v2''], paramidxs = [0, 1]\<rparr>)"
proof -
  let ?row = "[''v2'', ''Cyt'', ''k1_1*A/(k1_2+A)'', ''3'', ''4'', ''nan'']"
  let ?ps = "\<lparr>paramnames = [''k2_1'', ''k2_2''], paramvals = [Num 3, Num 4],
             paramrxns = [''v2'', ''v2''], paramidxs = [0, 1]\<rparr>"
  have toks: "map split_line [''3'', ''4'', ''nan''] = [[''3''], [''4''], [''nan'']]"
    by (simp add: split_line_def split_ws_def strip_chars_def isspace_def)
  have arr: "genfromtxt int_floats [''3'', ''4'', ''nan''] = Inr [Some (Num 3), Some (Num 4), None]"
    unfolding genfromtxt_def toks
    by (simp add: rectangular_def loose_float_def text_eval)
  have stoic: "expand_stoic 1 [(''A'', [''0'', ''-1''])] ([], [], ''k'' @ str_nat (1 + 1) @ ''*'')
      = Inr ([''A''], [], ''k2*A*'')"
    by (simp add: text_eval)
  have s1: "subst_matches (finditer (pattern1 1) ''k1_1*A/(k1_2+A)'') ''k2_1'' ''k1_1*A/(k1_2+A)''
      = ''k2_1*A/(k1_2+A)''"
    by (simp add: regex_eval text_eval)
  have s2: "subst_matches (finditer (pattern1 (Suc 1)) ''k2_1*A/(k1_2+A)'') ''k2_2'' ''k2_1*A/(k1_2+A)''
      = ''k2_1*A/(k2_2+A)''"
    by (simp add: regex_eval text_eval)
  have kn: "kname_j 1 1 = ''k2_1''" "kname_j 1 (Suc 1) = ''k2_2''"
    by (simp_all add: kname_j_def text_eval)
  have tf: "to_float int_floats ''3'' = Some (Num 3)" "to_float int_floats ''4'' = Some (Num 4)"
    by (simp_all add: text_eval)
  have pl: "param_loop int_floats 1 ''v2'' (drop 1 ?row) (Suc (Suc 0)) 0 1
        (''k1_1*A/(k1_2+A)'', no_params) = Inr (''k2_1*A/(k2_2+A)'', ?ps)"
    using tf kn s1 s2 by (simp add: add_param_def no_params_def nth_opt_def)
  have len: "length (drop_nan [Some (Num 3), Some (Num 4), None]) = Suc (Suc 0)"
    by (simp add: drop_nan_def)
  have d3: "drop 2 (drop 1 ?row) = [''3'', ''4'', ''nan'']"
    by simp
  have rf: "rate_formula int_floats 1 ?row ''k2*A*'' no_params = Inr (''k2_1*A/(k2_2+A)'', ?ps)"
    unfolding rate_formula_def Let_def nth_opt_drop1 d3 arr
    using pl by (simp add: len nth_opt_def)
  show ?thesis
    unfolding reaction_row_def stoic
    using rf by (simp add: reaction_line_def index_def nth_opt_def)
qed

lemma ex_template_tokens:
  "numeric_tokens int_floats [''3'', ''4'', ''nan''] = [''3'', ''4'']"
  "single_tokens 1 2 ''k1_1*A/(k1_2+A)''"
  "sub_indexed 1 2 ''k1_1*A/(k1_2+A)'' = ''k2_1*A/(k2_2+A)''"
proof -
  have toks: "map split_line [''3'', ''4'', ''nan''] = [[''3''], [''4''], [''nan'']]"
    by (simp add: split_line_def split_ws_def strip_chars_def isspace_def)
  have lf: "loose_float int_floats ''3'' = Some (Num 3)" "loose_float int_floats ''4'' = Some (Num 4)"
    "loose_float int_floats ''nan'' = None"
    by (simp_all add: loose_float_def text_eval)
  show "numeric_tokens int_floats [''3'', ''4'', ''nan''] = [''3'', ''4'']"
    unfolding numeric_tokens_def toks by (simp add: lf)
  have kn: "kname_j 1 1 = ''k2_1''" "kname_j 1 (Suc 1) = ''k2_2''"
    by (simp_all add: kname_j_def text_eval)
  have f1: "finditer (pattern1 1) ''k1_1*A/(k1_2+A)'' = [''k1_1'']"
    by (simp add: regex_eval text_eval)
  have u1: "sub_tokens (pattern1 1) ''k2_1'' ''k1_1*A/(k1_2+A)'' = ''k2_1*A/(k1_2+A)''"
    by (simp add: sub_tokens.simps regex_eval text_eval)
  have f2: "finditer (pattern1 (Suc 1)) ''k2_1*A/(k1_2+A)'' = [''k1_2'']"
    by (simp add: regex_eval text_eval)
  have u2: "sub_tokens (pattern1 (Suc 1)) ''k2_2'' ''k2_1*A/(k1_2+A)'' = ''k2_1*A/(k2_2+A)''"
    by (simp add: sub_tokens.simps regex_eval text_eval)
  have s0: "sub_indexed 1 0 ''k1_1*A/(k1_2+A)'' = ''k1_1*A/(k1_2+A)''"
    by (simp add: sub_indexed_def)
  have s1: "sub_indexed 1 (Suc 0) ''k1_1*A/(k1_2+A)'' = ''k2_1*A/(k1_2+A)''"
    using s0 kn u1 by (simp add: sub_indexed_Suc)
  show s2: "sub_indexed 1 2 ''k1_1*A/(k1_2+A)'' = ''k2_1*A/(k2_2+A)''"
    using s1 u2 kn by (simp add: numeral_2_eq_2 sub_indexed_Suc)
  have "single_token (pattern1 1) ''k1_1*A/(k1_2+A)''"
    unfolding single_token_def f1 by simp
  moreover have "single_token (pattern1 (Suc 1)) ''k2_1*A/(k1_2+A)''"
    unfolding single_token_def f2 by simp
  ultimately show "single_tokens 1 2 ''k1_1*A/(k1_2+A)''"
    using s0 s1 by (simp add: numeral_2_eq_2 single_tokens_Suc single_tokens_def)
qed

lemma ex_template_row_one:
  "reaction_row int_floats [''R1''] [(''A'', [''-1''])] 0 [''v1'', ''Cyt'', ''k1*A'', ''7''] no_params
     = Inr (Some (''  R1: A => ; (k1_1*A)*Cyt;'' @ [LF]),
            \<lparr>paramnames = [''k1_1''], paramvals = [Num 7], paramrxns = [''v1''], paramidxs = [0]\<rparr>)"
  "numeric_tokens int_floats [''7''] = [''7'']"
  "single_token pattern ''k1*A''"
  "sub_tokens pattern ''k1_1'' ''k1*A'' = ''k1_1*A''"
proof -
  let ?row = "[''v1'', ''Cyt'', ''k1*A'', ''7'']"
  have toks: "map split_line [''7''] = [[''7'']]"
    by (simp add: split_line_def split_ws_def strip_chars_def isspace_def)
  have arr: "genfromtxt int_floats [''7''] = Inr [Some (Num 7)]"
    unfolding genfromtxt_def toks
    by (simp add: rectangular_def loose_float_def text_eval)
  have len: "length (drop_nan [Some (Num 7)]) = 1"
    by (simp add: drop_nan_def)
  have stoic: "expand_stoic 0 [(''A'', [''-1''])] ([], [], ''k'' @ str_nat (0 + 1) @ ''*'')
      = Inr ([''A''], [], ''k1*A*'')"
    by (simp add: text_eval)
  have kn: "kname_j 0 1 = ''k1_1''"
    by (simp add: kname_j_def text_eval)
  have f: "finditer pattern ''k1*A'' = [''k1'']"
    by (simp add: regex_eval text_eval)
  have s: "subst_matches (finditer pattern ''k1*A'') ''k1_1'' ''k1*A'' = ''k1_1*A''"
    unfolding f by (simp add: replace.simps)
  have tf: "to_float int_floats ''7'' = Some (Num 7)"
    by (simp add: text_eval)
  have d3: "drop 2 (drop 1 ?row) = [''7'']"
    by simp
  have rf: "rate_formula int_floats 0 ?row ''k1*A*'' no_params
      = Inr (''k1_1*A'',
             \<lparr>paramnames = [''k1_1''], paramvals = [Num 7], paramrxns = [''v1''], paramidxs = [0]\<rparr>)"
    unfolding rate_formula_def Let_def nth_opt_drop1 d3 arr
    using s tf kn by (simp add: len nth_opt_def add_param_def no_params_def)
  show "reaction_row int_floats [''R1''] [(''A'', [''-1''])] 0 ?row no_params
     = Inr (Some (''  R1: A => ; (k1_1*A)*Cyt;'' @ [LF]),
            \<lparr>paramnames = [''k1_1''], paramvals = [Num 7], paramrxns = [''v1''], paramidxs = [0]\<rparr>)"
    unfolding reaction_row_def stoic
    using rf by (simp add: reaction_line_def index_def nth_opt_def)
  have lf: "loose_float int_floats ''7'' = Some (Num 7)"
    by (simp add: loose_float_def text_eval)
  show "numeric_tokens int_floats [''7''] = [''7'']"
    unfolding numeric_tokens_def toks by (simp add: lf)
  show "single_token pattern ''k1*A''"
    unfolding single_token_def f by simp
  show "sub_tokens pattern ''k1_1'' ''k1*A'' = ''k1_1*A''"
    by (simp add: sub_tokens.simps regex_eval text_eval)
qed

theorem template_row_witness:
  "nth_opt [''v2'', ''Cyt'', ''k1_1*A/(k1_2+A)'', ''3'', ''4'', ''nan''] 2 = Some ''k1_1*A/(k1_2+A)'' \<and>
   CHR ''k'' \<in> set ''k1_1*A/(k1_2+A)'' \<and>
   reaction_row int_floats [''R1'', ''R2''] [(''A'', [''0'', ''-1''])] 1
       [''v2'', ''Cyt'', ''k1_1*A/(k1_2+A)'', ''3'', ''4'', ''nan''] no_params
     = Inr (Some (''  R2: A => ; (k2_1*A/(k2_2+A))*Cyt;'' @ [LF]),
            \<lparr>paramnames = [''k2_1'', ''k2_2''], paramvals = [Num 3, Num 4],
             paramrxns = [''v2'', ''v2''], paramidxs = [0, 1]\<rparr>) \<and>
   numeric_tokens int_floats (drop 3 [''v2'', ''Cyt'', ''k1_1*A/(k1_2+A)'', ''3'', ''4'', ''nan''])
     = take 2 (drop 3 [''v2'', ''Cyt'', ''k1_1*A/(k1_2+A)'', ''3'', ''4'', ''nan'']) \<and>
   single_tokens 1 2 ''k1_1*A/(k1_2+A)'' \<and>
   sub_indexed 1 2 ''k1_1*A/(k1_2+A)'' = ''k2_1*A/(k2_2+A)'' \<and>
   [''k2_1'', ''k2_2''] = map (\<lambda>j. ''k'' @ str_nat (1 + 1) @ ''_'' @ str_nat j) [1 ..< 2 + 1] \<and>
   (\<exists>arr. genfromtxt int_floats [''3'', ''4'', ''nan''] = Inr arr \<and> [Num 3, Num 4] = drop_nan arr) \<and>
   nth_opt [''v1'', ''Cyt'', ''k1*A'', ''7''] 2 = Some ''k1*A'' \<and>
   CHR ''k'' \<in> set ''k1*A'' \<and>
   reaction_row int_floats [''R1''] [(''A'', [''-1''])] 0 [''v1'', ''Cyt'', ''k1*A'', ''7''] no_params
     = Inr (Some (''  R1: A => ; (k1_1*A)*Cyt;'' @ [LF]),
            \<lparr>paramnames = [''k1_1''], paramvals = [Num 7], paramrxns = [''v1''], paramidxs = [0]\<rparr>) \<and>
   single_token pattern ''k1*A'' \<and>
   (\<exists>formula. formula = sub_tokens pattern (''k'' @ str_nat (0 + 1) @ ''_'' @ str_nat 1) ''k1*A'' \<and>
      formula = ''k1_1*A'')"
proof -
  let ?row = "[''v2'', ''Cyt'', ''k1_1*A/(k1_2+A)'', ''3'', ''4'', ''nan'']"
  let ?ps = "\<lparr>paramnames = [''k2_1'', ''k2_2''], paramvals = [Num 3, Num 4],
             paramrxns = [''v2'', ''v2''], paramidxs = [0, 1]\<rparr>"
  have h1: "nth_opt ?row 2 = Some ''k1_1*A/(k1_2+A)''"
    by (simp add: nth_opt_def)
  have h2: "CHR ''k'' \<in> set ''k1_1*A/(k1_2+A)''"
    by simp
  have d3: "drop 3 ?row = [''3'', ''4'', ''nan'']"
    by simp
  have nt: "numeric_tokens int_floats (drop 3 ?row) = take 2 (drop 3 ?row)"
    by (simp add: ex_template_tokens(1))
  from template_row [OF h1 h2 ex_template_row] obtain arr n vs
    where arr: "genfromtxt int_floats (drop 3 ?row) = Inr arr"
      and n: "n = length (numeric_tokens int_floats (drop 3 ?row))"
      and names: "paramnames ?ps = paramnames (no_params :: num params)
        @ map (\<lambda>j. ''k'' @ str_nat (1 + 1) @ ''_'' @ str_nat j) [1 ..< n + 1]"
      and vals: "paramvals ?ps = paramvals (no_params :: num params) @ vs"
      and agree: "take n (drop 3 ?row) = numeric_tokens int_floats (drop 3 ?row) \<longrightarrow> vs = drop_nan arr"
    by blast
  from n have n2: "n = 2"
    by (simp add: ex_template_tokens(1))
  from names n2 have nm: "[''k2_1'', ''k2_2'']
      = map (\<lambda>j. ''k'' @ str_nat (1 + 1) @ ''_'' @ str_nat j) [1 ..< 2 + 1]"
    by (simp add: no_params_def)
  from vals have "vs = [Num 3, Num 4]"
    by (simp add: no_params_def)
  with agree n2 nt have "[Num 3, Num 4] = drop_nan arr"
    by simp
  with arr have ex: "\<exists>arr. genfromtxt int_floats [''3'', ''4'', ''nan''] = Inr arr
      \<and> [Num 3, Num 4] = drop_nan arr"
    by (auto simp: d3)
  let ?row1 = "[''v1'', ''Cyt'', ''k1*A'', ''7'']"
  have g1: "nth_opt ?row1 2 = Some ''k1*A''"
    by (simp add: nth_opt_def)
  have g2: "CHR ''k'' \<in> set ''k1*A''"
    by simp
  from template_row [OF g1 g2 ex_template_row_one(1)] obtain m formula
    where m: "m = length (numeric_tokens int_floats (drop 3 ?row1))"
      and ag: "m = 1 \<and> single_token pattern ''k1*A'' \<longrightarrow>
        formula = sub_tokens pattern (''k'' @ str_nat (0 + 1) @ ''_'' @ str_nat 1) ''k1*A''"
    by blast
  from m have "m = 1"
    by (simp add: ex_template_row_one(2))
  with ag ex_template_row_one(3)
  have "formula = sub_tokens pattern (''k'' @ str_nat (0 + 1) @ ''_'' @ str_nat 1) ''k1*A''"
    by blast
  moreover have "sub_tokens pattern (''k'' @ str_nat (0 + 1) @ ''_'' @ str_nat 1) ''k1*A'' = ''k1_1*A''"
    using ex_template_row_one(4) by (simp add: text_eval)
  ultimately have one: "\<exists>formula.
      formula = sub_tokens pattern (''k'' @ str_nat (0 + 1) @ ''_'' @ str_nat 1) ''k1*A'' \<and>
      formula = ''k1_1*A''"
    by simp
  from h1 h2 ex_template_row nt ex_template_tokens(2,3) nm ex g1 g2 ex_template_row_one(1,3) one
  show ?thesis
    by (intro conjI)
qed

text \<open>
  C2 as stated fails in both halves. In the row below the trailing columns are \<open>nan\<close>
  and \<open>5\<close>: there is one non-missing value, 5, and the one parameter gets the value
  of the first trailing column, which is nan. The template \<open>k1*Erk\<close> has the tokens
  \<open>k1\<close> and \<open>k\<close> (the end of \<open>Erk\<close>): after \<open>k1\<close> is replaced by \<open>k1_1\<close>, every \<open>k\<close> is
  replaced by \<open>k1_1\<close>, also the one of the name just inserted, which gives
  \<open>k1_11_1*Erk1_1\<close> where replacing each token gives \<open>k1_1*Erk1_1\<close>.
\<close>

theorem template_row_counterexample:
  "reaction_row int_floats [''R1''] [(''Erk'', [''-1''])] 0
       [''v1'', ''Cyt'', ''k1*Erk'', ''nan'', ''5''] no_params
     = Inr (Some (''  R1: Erk => ; (k1_11_1*Erk1_1)*Cyt;'' @ [LF]),
            \<lparr>paramnames = [''k1_1''], paramvals = [NaN], paramrxns = [''v1''], paramidxs = [0]\<rparr>) \<and>
   template_spec int_floats 0 ''k1*Erk'' [''nan'', ''5'']
     = Some (''k1_1*Erk1_1'', [''k1_1''], [Num 5])"
proof -
  let ?row = "[''v1'', ''Cyt'', ''k1*Erk'', ''nan'', ''5'']"
  have toks: "map split_line [''nan'', ''5''] = [[''nan''], [''5'']]"
    by (simp add: split_line_def split_ws_def strip_chars_def isspace_def)
  have arr: "genfromtxt int_floats [''nan'', ''5''] = Inr [None, Some (Num 5)]"
    unfolding genfromtxt_def toks
    by (simp add: rectangular_def loose_float_def text_eval)
  have len: "length (drop_nan [None, Some (Num 5)]) = 1" "drop_nan [None, Some (Num 5)] = [Num 5]"
    by (simp_all add: drop_nan_def)
  have stoic: "expand_stoic 0 [(''Erk'', [''-1''])] ([], [], ''k'' @ str_nat (0 + 1) @ ''*'')
      = Inr ([''Erk''], [], ''k1*Erk*'')"
    by (simp add: text_eval)
  have kn: "kname_j 0 1 = ''k1_1''"
    by (simp add: kname_j_def text_eval)
  have s: "subst_matches (finditer pattern ''k1*Erk'') ''k1_1'' ''k1*Erk'' = ''k1_11_1*Erk1_1''"
    by (simp add: regex_eval text_eval)
  have u: "sub_tokens pattern ''k1_1'' ''k1*Erk'' = ''k1_1*Erk1_1''"
    by (simp add: sub_tokens.simps regex_eval text_eval)
  have tf: "to_float int_floats ''nan'' = Some NaN"
    by (simp add: text_eval)
  have d3: "drop 2 (drop 1 ?row) = [''nan'', ''5'']"
    by simp
  have rf: "rate_formula int_floats 0 ?row ''k1*Erk*'' no_params
      = Inr (''k1_11_1*Erk1_1'',
             \<lparr>paramnames = [''k1_1''], paramvals = [NaN], paramrxns = [''v1''], paramidxs = [0]\<rparr>)"
    unfolding rate_formula_def Let_def nth_opt_drop1 d3 arr
    using s tf kn by (simp add: len nth_opt_def add_param_def no_params_def)
  have run: "reaction_row int_floats [''R1''] [(''Erk'', [''-1''])] 0 ?row no_params
     = Inr (Some (''  R1: Erk => ; (k1_11_1*Erk1_1)*Cyt;'' @ [LF]),
            \<lparr>paramnames = [''k1_1''], paramvals = [NaN], paramrxns = [''v1''], paramidxs = [0]\<rparr>)"
    unfolding reaction_row_def stoic
    using rf by (simp add: reaction_line_def index_def nth_opt_def)
  have spec: "template_spec int_floats 0 ''k1*Erk'' [''nan'', ''5'']
     = Some (''k1_1*Erk1_1'', [''k1_1''], [Num 5])"
    unfolding template_spec_def arr
    using u kn by (simp add: len)
  from run spec show ?thesis ..
qed

subsection \<open>Parameter names are distinct\<close>

lemma digit_cases:
  assumes "d < 10"
  shows "d \<in> {0, 1, 2, 3, 4, 5, 6, 7, 8, 9 :: nat}"
  using assms by auto

lemma digit_char_isdigit: "d < 10 \<Longrightarrow> isdigit (digit_char d)"
  using digit_cases [of d] by (auto simp: isdigit_def digit_char_def)

lemma digit_val_digit_char: "d < 10 \<Longrightarrow> digit_val (digit_char d) = d"
  using digit_cases [of d] by (auto simp: digit_val_def digit_char_def)

lemma str_nat_digits: "list_all isdigit (str_nat n)"
proof (induction n rule: str_nat.induct)
  case (1 n)
  show ?case
  proof (cases "n < 10")
    case True
    then show ?thesis
      by (subst str_nat.simps) (simp add: digit_char_isdigit)
  next
    case False
    with "1.IH" show ?thesis
      by (subst str_nat.simps) (simp add: digit_char_isdigit)
  qed
qed

lemma nat_of_digits_snoc: "nat_of_digits (s @ [c]) = 10 * nat_of_digits s + digit_val c"
  by (simp add: nat_of_digits_def)

lemma nat_of_digits_str_nat: "nat_of_digits (str_nat n) = n"
proof (induction n rule: str_nat.induct)
  case (1 n)
  show ?case
  proof (cases "n < 10")
    case True
    then have "str_nat n = [digit_char n]"
      by (subst str_nat.simps) simp
    with True show ?thesis
      by (simp add: nat_of_digits_def digit_val_digit_char)
  next
    case False
    then have "str_nat n = str_nat (n div 10) @ [digit_char (n mod 10)]"
      by (subst str_nat.simps) simp
    then have "nat_of_digits (str_nat n)
        = 10 * nat_of_digits (str_nat (n div 10)) + digit_val (digit_char (n mod 10))"
      by (simp only: nat_of_digits_snoc)
    also have "\<dots> = 10 * (n div 10) + n mod 10"
      using "1.IH" [OF False] by (simp add: digit_val_digit_char)
    also have "\<dots> = n"
      by simp
    finally show ?thesis .
  qed
qed

lemma str_nat_inj: "str_nat m = str_nat n \<Longrightarrow> m = n"
  by (metis nat_of_digits_str_nat)

lemma underscore_not_digit: "\<not> isdigit CHR ''_''"
  by (simp add: isdigit_def)

lemma takeWhile_digits:
  "list_all isdigit ds \<Longrightarrow> takeWhile isdigit (ds @ CHR ''_'' # rest) = ds"
  by (induction ds) (simp_all add: underscore_not_digit)

lemma dropWhile_digits:
  "list_all isdigit ds \<Longrightarrow> dropWhile isdigit (ds @ CHR ''_'' # rest) = CHR ''_'' # rest"
  by (induction ds) (simp_all add: underscore_not_digit)

lemma kname_inj: "kname i = kname i' \<Longrightarrow> i = i'"
  using str_nat_inj [of "i + 1" "i' + 1"] by (simp add: kname_def)

lemma kname_j_inj:
  assumes "kname_j i j = kname_j i' j'"
  shows "i = i' \<and> j = j'"
proof -
  from assms have eq: "str_nat (i + 1) @ CHR ''_'' # str_nat j = str_nat (i' + 1) @ CHR ''_'' # str_nat j'"
    by (simp add: kname_j_def)
  from arg_cong [OF eq, of "takeWhile isdigit"] have "str_nat (i + 1) = str_nat (i' + 1)"
    by (simp add: takeWhile_digits str_nat_digits)
  moreover from arg_cong [OF eq, of "dropWhile isdigit"] have "str_nat j = str_nat j'"
    by (simp add: dropWhile_digits str_nat_digits)
  ultimately show ?thesis
    using str_nat_inj [of "i + 1" "i' + 1"] str_nat_inj [of j j'] by simp
qed

lemma kname_neq_kname_j: "kname i \<noteq> kname_j i' j"
proof
  assume "kname i = kname_j i' j"
  then have "str_nat (i + 1) = str_nat (i' + 1) @ CHR ''_'' # str_nat j"
    by (simp add: kname_def kname_j_def)
  then have "CHR ''_'' \<in> set (str_nat (i + 1))"
    by simp
  with str_nat_digits [of "i + 1"] show False
    by (auto simp: list_all_iff underscore_not_digit)
qed

text \<open>The names a row with number \<open>i\<close> can give to its parameters.\<close>

lemma distinct_kname_j: "distinct (map (kname_j i) [a ..< b])"
  by (auto simp: distinct_map inj_on_def dest: kname_j_inj)

lemma rate_formula_names:
  assumes "rate_formula F i row f ps = Inr (f', ps')"
  shows "\<exists>new. paramnames ps' = paramnames ps @ new \<and> distinct new \<and>
     set new \<subseteq> insert (kname i) (range (kname_j i))"
proof -
  from assms obtain field where field: "nth_opt row 2 = Some field"
    unfolding rate_formula_def Let_def nth_opt_drop1 by (auto split: option.splits)
  show ?thesis
  proof (cases "CHR ''k'' \<in> set field")
    case False
    with assms field have "paramnames ps' = paramnames ps @ [kname i]"
      by (auto simp: rate_formula_mass add_param_def split: option.splits)
    then show ?thesis by simp
  next
    case True
    from rate_formula_template [OF field True assms]
    have "paramnames ps' = paramnames ps
        @ map (kname_j i) [1 ..< length (numeric_tokens F (drop 3 row)) + 1]"
      by blast
    moreover have "set (map (kname_j i) [1 ..< length (numeric_tokens F (drop 3 row)) + 1])
        \<subseteq> insert (kname i) (range (kname_j i))"
      by auto
    ultimately show ?thesis
      using distinct_kname_j by blast
  qed
qed

lemma reaction_row_rate_formula:
  assumes "reaction_row F cols stoic i row ps = Inr (out, ps')"
  shows "\<exists>f f'. rate_formula F i row f ps = Inr (f', ps')"
  using assms
  by (auto simp: reaction_row_unfold bind_err_Inr split: if_splits)

lemma row_names_disjoint:
  assumes "i \<noteq> i'"
  shows "insert (kname i) (range (kname_j i)) \<inter> insert (kname i') (range (kname_j i')) = {}"
  using assms kname_inj kname_j_inj kname_neq_kname_j
  by (auto simp: set_eq_iff) metis+

lemma reaction_loop_names:
  "reaction_loop F cols stoic k rows (outs0, ps0) = Inr (outs, ps) \<Longrightarrow>
     \<exists>new. paramnames ps = paramnames ps0 @ new \<and> distinct new \<and>
       set new \<subseteq> (\<Union>i \<in> {k ..< k + length rows}. insert (kname i) (range (kname_j i)))"
proof (induction rows arbitrary: k outs0 ps0)
  case Nil
  then show ?case by simp
next
  case (Cons row rows)
  from Cons.prems obtain out ps1 where row: "reaction_row F cols stoic k row ps0 = Inr (out, ps1)"
    and rest: "reaction_loop F cols stoic (Suc k) rows (outs0 @ [out], ps1) = Inr (outs, ps)"
    by (auto split: sum.splits)
  from reaction_row_rate_formula [OF row] rate_formula_names
  obtain new1 where n1: "paramnames ps1 = paramnames ps0 @ new1" "distinct new1"
    "set new1 \<subseteq> insert (kname k) (range (kname_j k))"
    by blast
  from Cons.IH [OF rest] obtain new2 where n2: "paramnames ps = paramnames ps1 @ new2" "distinct new2"
    "set new2 \<subseteq> (\<Union>i \<in> {Suc k ..< Suc k + length rows}. insert (kname i) (range (kname_j i)))"
    by blast
  have disj: "set new1 \<inter> set new2 = {}"
  proof (rule ccontr)
    assume "set new1 \<inter> set new2 \<noteq> {}"
    then obtain x where x1: "x \<in> set new1" and x2: "x \<in> set new2" by blast
    from x2 n2(3) have "x \<in> (\<Union>i \<in> {Suc k ..< Suc k + length rows}. insert (kname i) (range (kname_j i)))"
      by blast
    then obtain i where "i \<in> {Suc k ..< Suc k + length rows}"
      and xi: "x \<in> insert (kname i) (range (kname_j i))"
      by blast
    then have i: "Suc k \<le> i" by simp
    from x1 n1(3) have xk: "x \<in> insert (kname k) (range (kname_j k))" by blast
    from i have "k \<noteq> i" by simp
    from row_names_disjoint [OF this] xk xi show False by blast
  qed
  have sub: "set (new1 @ new2)
      \<subseteq> (\<Union>i \<in> {k ..< k + length (row # rows)}. insert (kname i) (range (kname_j i)))"
  proof
    fix x assume "x \<in> set (new1 @ new2)"
    then consider "x \<in> set new1" | "x \<in> set new2" by auto
    then show "x \<in> (\<Union>i \<in> {k ..< k + length (row # rows)}. insert (kname i) (range (kname_j i)))"
    proof cases
      case 1
      with n1(3) have "x \<in> insert (kname k) (range (kname_j k))" by blast
      then show ?thesis by (intro UN_I [of k]) auto
    next
      case 2
      with n2(3) obtain i where "i \<in> {Suc k ..< Suc k + length rows}"
        and "x \<in> insert (kname i) (range (kname_j i))" by blast
      then show ?thesis by (intro UN_I [of i]) auto
    qed
  qed
  have "paramnames ps = paramnames ps0 @ (new1 @ new2)"
    using n1 n2 by simp
  moreover have "distinct (new1 @ new2)"
    using n1 n2 disj by simp
  ultimately show ?case using sub by blast
qed

subsection \<open>Every row appends its own parameters\<close>

lemma append_no_params [simp]:
  "append_params ps no_params = ps" "append_params no_params ps = ps"
  by (simp_all add: append_params_def no_params_def)

lemma append_params_assoc:
  "append_params (append_params a b) c = append_params a (append_params b c)"
  by (simp add: append_params_def)

lemma add_param_append:
  "add_param name v rxn q ps = append_params ps (add_param name v rxn q no_params)"
  by (simp add: add_param_def append_params_def no_params_def)

lemma aligned_simps [simp]:
  "aligned no_params"
  "aligned (add_param name v rxn q ps) = aligned ps"
  by (auto simp: aligned_def no_params_def add_param_def)

lemma aligned_append: "aligned a \<Longrightarrow> aligned b \<Longrightarrow> aligned (append_params a b)"
  by (simp add: aligned_def append_params_def)

lemma param_loop_append:
  "param_loop F k rxn ratelaw n q j (f, ps) =
     (case param_loop F k rxn ratelaw n q j (f, no_params) of
        Inl e \<Rightarrow> Inl e
      | Inr (f', new) \<Rightarrow> Inr (f', append_params ps new))"
proof (induction n arbitrary: q j f ps)
  case 0
  show ?case by simp
next
  case (Suc n)
  show ?case
  proof (cases "nth_opt ratelaw (j + 1)")
    case None
    then show ?thesis by simp
  next
    case (Some cell)
    show ?thesis
    proof (cases "to_float F cell")
      case None
      with Some show ?thesis by simp
    next
      case v: (Some v)
      let ?f1 = "subst_matches (finditer (pattern1 j) f) (kname_j k j) f"
      let ?one = "add_param (kname_j k j) v rxn q no_params"
      have l: "param_loop F k rxn ratelaw (Suc n) q j (f, ps)
          = param_loop F k rxn ratelaw n (q + 1) (j + 1) (?f1, append_params ps ?one)"
        using Some v add_param_append [of "kname_j k j" v rxn q ps] by simp
      have r: "param_loop F k rxn ratelaw (Suc n) q j (f, no_params)
          = param_loop F k rxn ratelaw n (q + 1) (j + 1) (?f1, ?one)"
        using Some v by simp
      have a: "param_loop F k rxn ratelaw n (q + 1) (j + 1) (?f1, append_params ps ?one) =
         (case param_loop F k rxn ratelaw n (q + 1) (j + 1) (?f1, no_params) of
            Inl e \<Rightarrow> Inl e
          | Inr (f', new) \<Rightarrow> Inr (f', append_params (append_params ps ?one) new))"
        by (rule Suc.IH)
      have b: "param_loop F k rxn ratelaw n (q + 1) (j + 1) (?f1, ?one) =
         (case param_loop F k rxn ratelaw n (q + 1) (j + 1) (?f1, no_params) of
            Inl e \<Rightarrow> Inl e
          | Inr (f', new) \<Rightarrow> Inr (f', append_params ?one new))"
        by (rule Suc.IH)
      show ?thesis
        unfolding l r a b
        by (auto simp: append_params_assoc split: sum.splits)
    qed
  qed
qed

lemma rate_formula_append:
  "rate_formula F i row f ps =
     (case rate_formula F i row f no_params of
        Inl e \<Rightarrow> Inl e
      | Inr (f', new) \<Rightarrow> Inr (f', append_params ps new))"
proof -
  have pl: "param_loop F i (row ! 0) (drop (Suc 0) row) n 0 (Suc 0) (g, ps) =
     (case param_loop F i (row ! 0) (drop (Suc 0) row) n 0 (Suc 0) (g, no_params) of
        Inl e \<Rightarrow> Inl e
      | Inr (f', new) \<Rightarrow> Inr (f', append_params ps new))" for n g
    by (rule param_loop_append)
  show ?thesis
    unfolding rate_formula_def Let_def
    by (auto simp: pl add_param_append [of _ _ _ _ ps] split: option.splits sum.splits)
qed

lemma reaction_row_append:
  "reaction_row F cols stoic i row ps =
     (case reaction_row F cols stoic i row no_params of
        Inl e \<Rightarrow> Inl e
      | Inr (out, new) \<Rightarrow> Inr (out, append_params ps new))"
  unfolding reaction_row_def
  by (subst rate_formula_append)
     (auto simp: bind_err_def split: sum.splits prod.splits)

lemma param_loop_aligned:
  "param_loop F k rxn ratelaw n q j (f, ps) = Inr (f', ps') \<Longrightarrow> aligned ps \<Longrightarrow> aligned ps'"
proof (induction n arbitrary: q j f ps)
  case 0
  then show ?case by simp
next
  case (Suc n)
  then show ?case
    by (auto split: option.splits)
qed

lemma rate_formula_aligned:
  "rate_formula F i row f ps = Inr (f', ps') \<Longrightarrow> aligned ps \<Longrightarrow> aligned ps'"
  unfolding rate_formula_def Let_def
  by (auto split: option.splits sum.splits if_splits dest: param_loop_aligned)

lemma reaction_row_aligned:
  "reaction_row F cols stoic i row ps = Inr (out, ps') \<Longrightarrow> aligned ps \<Longrightarrow> aligned ps'"
  using reaction_row_rate_formula rate_formula_aligned by blast

text \<open>
  The loop processes every row on its own and appends what the row gives: the line (or
  none) and the parameters that the row yields from empty lists.
\<close>

lemma reaction_loop_rows:
  "reaction_loop F cols stoic k rows (outs0, ps0) = Inr (outs, ps) \<Longrightarrow>
     \<exists>res. length res = length rows \<and>
       (\<forall>i < length rows. reaction_row F cols stoic (k + i) (rows ! i) no_params = Inr (res ! i)) \<and>
       outs = outs0 @ map fst res \<and>
       ps = foldl append_params ps0 (map snd res)"
proof (induction rows arbitrary: k outs0 ps0)
  case Nil
  then show ?case by simp
next
  case (Cons row rows)
  from Cons.prems obtain out ps1 where row: "reaction_row F cols stoic k row ps0 = Inr (out, ps1)"
    and rest: "reaction_loop F cols stoic (Suc k) rows (outs0 @ [out], ps1) = Inr (outs, ps)"
    by (auto split: sum.splits)
  from row obtain new where new: "reaction_row F cols stoic k row no_params = Inr (out, new)"
    and ps1: "ps1 = append_params ps0 new"
    by (subst (asm) reaction_row_append) (auto split: sum.splits)
  from Cons.IH [OF rest] obtain res where res: "length res = length rows"
    "\<forall>i < length rows. reaction_row F cols stoic (Suc k + i) (rows ! i) no_params = Inr (res ! i)"
    "outs = (outs0 @ [out]) @ map fst res" "ps = foldl append_params ps1 (map snd res)"
    by blast
  have "\<forall>i < length (row # rows).
      reaction_row F cols stoic (k + i) ((row # rows) ! i) no_params = Inr (((out, new) # res) ! i)"
  proof (intro allI impI)
    fix i assume "i < length (row # rows)"
    then show "reaction_row F cols stoic (k + i) ((row # rows) ! i) no_params
        = Inr (((out, new) # res) ! i)"
      using new res(2) by (cases i) auto
  qed
  moreover have "length ((out, new) # res) = length (row # rows)"
    using res(1) by simp
  moreover have "outs = outs0 @ map fst ((out, new) # res)"
    using res(3) by simp
  moreover have "ps = foldl append_params ps0 (map snd ((out, new) # res))"
    using res(4) ps1 by simp
  ultimately show ?case by blast
qed

lemma params_table_append:
  "aligned a \<Longrightarrow> params_table (append_params a b) = params_table a @ params_table b"
  by (simp add: params_table_def append_params_def aligned_def)

lemma foldl_append_params_aligned:
  "aligned a \<Longrightarrow> list_all aligned bs \<Longrightarrow> aligned (foldl append_params a bs)"
  by (induction bs arbitrary: a) (simp_all add: aligned_append)

lemma params_table_foldl:
  "aligned a \<Longrightarrow> list_all aligned bs \<Longrightarrow>
     params_table (foldl append_params a bs) = params_table a @ concat (map params_table bs)"
  by (induction bs arbitrary: a) (simp_all add: aligned_append params_table_append)

lemma paramnames_params_table: "aligned ps \<Longrightarrow> map fst (params_table ps) = paramnames ps"
  by (simp add: params_table_def aligned_def)

subsection \<open>The written model\<close>

lemma write_model_Inr:
  assumes "write_model r F fs = Inr m"
  shows "\<exists>compartment_sheet (comps :: (string \<times> string) list) species_sheet
       species_compartments stoic_sheet ratelaw_sheet stoic outs ps vols ics.
     read_table r fs ''Compartments.txt'' = Inr compartment_sheet \<and>
     read_table r fs ''Species.txt'' = Inr species_sheet \<and>
     read_table r fs ''StoicMat.txt'' = Inr stoic_sheet \<and>
     read_table r fs ''Ratelaws.txt'' = Inr ratelaw_sheet \<and>
     0 < length stoic_sheet \<and>
     stoic_rows stoic_sheet = Inr stoic \<and>
     reaction_loop F (stoic_sheet ! 0) stoic 0 (drop 1 ratelaw_sheet) ([], no_params) = Inr (outs, ps) \<and>
     model_text m =
       header_text @ compartments_text (map fst comps)
       @ species_text (zip (map (\<lambda>val. val ! 0) (drop 1 species_sheet)) species_compartments)
       @ reactions_text outs @ compartment_inits F vols @ species_inits F ics
       @ param_inits F ps @ footer_text \<and>
     params_all m = params_table ps \<and>
     model_compartments m = compartment_sheet \<and> model_species m = species_sheet"
  using assms unfolding write_model_def
  apply (auto simp: bind_err_Inr index_def nth_opt_def split: option.splits if_splits)
  apply (intro exI)
  apply (rule refl)
  done

subsection \<open>The text of the model, block by block\<close>

lemma try_map_names_vols:
  "try_map (\<lambda>row. bind_err (index row 0) (\<lambda>name. bind_err (index row 1) (\<lambda>vol. Inr (name, vol)))) rows
     = Inr comps \<Longrightarrow>
   list_all (\<lambda>row. 1 < length row) rows \<and> comps = map (\<lambda>row. (row ! 0, row ! 1)) rows"
proof (induction rows arbitrary: comps)
  case Nil
  then show ?case by simp
next
  case (Cons row rows)
  from Cons.prems obtain c cs where c: "bind_err (index row 0)
        (\<lambda>name. bind_err (index row 1) (\<lambda>vol. Inr (name, vol))) = Inr c"
    and cs: "try_map (\<lambda>row. bind_err (index row 0)
        (\<lambda>name. bind_err (index row 1) (\<lambda>vol. Inr (name, vol)))) rows = Inr cs"
    and comps: "comps = c # cs"
    by (auto split: sum.splits)
  from c have "1 < length row \<and> c = (row ! 0, row ! 1)"
    by (auto simp: bind_err_Inr index_def nth_opt_def split: if_splits)
  with Cons.IH [OF cs] comps show ?case by simp
qed

lemma try_map_second:
  "try_map (\<lambda>row. index row 1) rows = Inr cs \<Longrightarrow> cs = map (\<lambda>row. row ! 1) rows"
proof (induction rows arbitrary: cs)
  case Nil
  then show ?case by simp
next
  case (Cons row rows)
  from Cons.prems obtain c cs' where c: "index row 1 = Inr c"
    and cs: "try_map (\<lambda>row. index row 1) rows = Inr cs'" and eq: "cs = c # cs'"
    by (auto split: sum.splits)
  from c have "c = row ! 1"
    by (auto simp: index_def nth_opt_def split: if_splits)
  with Cons.IH [OF cs] eq show ?case by simp
qed

lemma try_map_volumes:
  "try_map (\<lambda>(name, vol). bind_err (np_double F vol) (\<lambda>v. Inr (name, v))) comps = Inr vols \<Longrightarrow>
   vols = zip (map fst comps) (map snd vols) \<and>
   map (\<lambda>c. np_double F (snd c)) comps = map Inr (map snd vols)"
proof (induction comps arbitrary: vols)
  case Nil
  then show ?case by simp
next
  case (Cons c comps)
  obtain name vol where c: "c = (name, vol)" by (cases c)
  from Cons.prems c obtain v vs where v: "np_double F vol = Inr v"
    and vs: "try_map (\<lambda>(name, vol). bind_err (np_double F vol) (\<lambda>v. Inr (name, v))) comps = Inr vs"
    and eq: "vols = (name, v) # vs"
    by (auto simp: bind_err_Inr split: sum.splits)
  from Cons.IH [OF vs] v eq c show ?case by simp
qed

lemma try_map_initial_values:
  "try_map (\<lambda>val. bind_err (index val 2) (\<lambda>ic. bind_err (np_double F ic) (\<lambda>v. Inr (val ! 0, v)))) rows
     = Inr ics \<Longrightarrow>
   list_all (\<lambda>row. 2 < length row) rows \<and>
   ics = zip (map (\<lambda>row. row ! 0) rows) (map snd ics) \<and>
   map (\<lambda>row. np_double F (row ! 2)) rows = map Inr (map snd ics)"
proof (induction rows arbitrary: ics)
  case Nil
  then show ?case by simp
next
  case (Cons row rows)
  from Cons.prems obtain c cs where c: "bind_err (index row 2)
        (\<lambda>ic. bind_err (np_double F ic) (\<lambda>v. Inr (row ! 0, v))) = Inr c"
    and cs: "try_map (\<lambda>val. bind_err (index val 2)
        (\<lambda>ic. bind_err (np_double F ic) (\<lambda>v. Inr (val ! 0, v)))) rows = Inr cs"
    and eq: "ics = c # cs"
    by (auto split: sum.splits)
  from c have "2 < length row \<and> fst c = row ! 0 \<and> np_double F (row ! 2) = Inr (snd c)"
    by (auto simp: bind_err_Inr index_def nth_opt_def split: if_splits)
  with Cons.IH [OF cs] eq show ?case
    by (cases c) simp
qed

text \<open>
  The whole text of the model of a successful run, in terms of the tables: the loop
  yields, for every row of the rate-law sheet, what \<open>reaction_row\<close> yields for it from
  empty parameter lists.
\<close>

lemma write_model_text:
  assumes "write_model r F fs = Inr m"
  shows "\<exists>compartment_sheet species_sheet stoic_sheet ratelaw_sheet stoic cvals svals res ps.
     read_table r fs ''Compartments.txt'' = Inr compartment_sheet \<and>
     read_table r fs ''Species.txt'' = Inr species_sheet \<and>
     read_table r fs ''StoicMat.txt'' = Inr stoic_sheet \<and>
     read_table r fs ''Ratelaws.txt'' = Inr ratelaw_sheet \<and>
     stoic_rows stoic_sheet = Inr stoic \<and>
     list_all (\<lambda>row. 1 < length row) (drop 1 compartment_sheet) \<and>
     list_all (\<lambda>row. 2 < length row) (drop 1 species_sheet) \<and>
     map (\<lambda>row. np_double F (row ! 1)) (drop 1 compartment_sheet) = map Inr cvals \<and>
     map (\<lambda>row. np_double F (row ! 2)) (drop 1 species_sheet) = map Inr svals \<and>
     length res = length ratelaw_sheet - 1 \<and>
     (\<forall>i < length res.
        reaction_row F (stoic_sheet ! 0) stoic i (ratelaw_sheet ! (i + 1)) no_params = Inr (res ! i)) \<and>
     reaction_loop F (stoic_sheet ! 0) stoic 0 (drop 1 ratelaw_sheet) ([], no_params)
       = Inr (map fst res, ps) \<and>
     ps = foldl append_params no_params (map snd res) \<and>
     params_all m = params_table ps \<and>
     model_text m =
       header_text
       @ compartments_text (map (\<lambda>row. row ! 0) (drop 1 compartment_sheet))
       @ species_text (map (\<lambda>row. (row ! 0, row ! 1)) (drop 1 species_sheet))
       @ reactions_text (map fst res)
       @ compartment_inits F (zip (map (\<lambda>row. row ! 0) (drop 1 compartment_sheet)) cvals)
       @ species_inits F (zip (map (\<lambda>row. row ! 0) (drop 1 species_sheet)) svals)
       @ param_inits F ps @ footer_text"
proof -
  from assms obtain compartment_sheet species_sheet stoic_sheet ratelaw_sheet
      and comps :: "(string \<times> string) list" and species_compartments stoic outs ps vols ics
    where cs: "read_table r fs ''Compartments.txt'' = Inr compartment_sheet"
      and c1: "try_map (\<lambda>row. bind_err (index row 0)
                 (\<lambda>name. bind_err (index row 1) (\<lambda>vol. Inr (name, vol)))) (drop 1 compartment_sheet)
               = Inr comps"
      and ss: "read_table r fs ''Species.txt'' = Inr species_sheet"
      and s1: "try_map (\<lambda>row. index row 1) (drop 1 species_sheet) = Inr species_compartments"
      and st: "read_table r fs ''StoicMat.txt'' = Inr stoic_sheet"
      and rl: "read_table r fs ''Ratelaws.txt'' = Inr ratelaw_sheet"
      and cols: "index stoic_sheet 0 = Inr (stoic_sheet ! 0)"
      and rows: "stoic_rows stoic_sheet = Inr stoic"
      and loop: "reaction_loop F (stoic_sheet ! 0) stoic 0 (drop 1 ratelaw_sheet) ([], no_params)
          = Inr (outs, ps)"
      and v1: "try_map (\<lambda>(name, vol). bind_err (np_double F vol) (\<lambda>v. Inr (name, v))) comps = Inr vols"
      and i1: "try_map (\<lambda>val. bind_err (index val 2)
                 (\<lambda>ic. bind_err (np_double F ic) (\<lambda>v. Inr (val ! 0, v)))) (drop 1 species_sheet)
               = Inr ics"
      and mt: "model_text m =
         header_text @ compartments_text (map fst comps)
         @ species_text (zip (map (\<lambda>val. val ! 0) (drop 1 species_sheet)) species_compartments)
         @ reactions_text outs @ compartment_inits F vols @ species_inits F ics
         @ param_inits F ps @ footer_text"
      and tab: "params_all m = params_table ps"
    unfolding write_model_def
    by (auto simp: bind_err_Inr index_def nth_opt_def split: option.splits if_splits)
  from try_map_names_vols [OF c1]
  have cl: "list_all (\<lambda>row. 1 < length row) (drop 1 compartment_sheet)"
    and comps: "comps = map (\<lambda>row. (row ! 0, row ! 1)) (drop 1 compartment_sheet)"
    by simp_all
  from try_map_second [OF s1]
  have sc: "species_compartments = map (\<lambda>row. row ! 1) (drop 1 species_sheet)" .
  from try_map_volumes [OF v1]
  have vols: "vols = zip (map (\<lambda>row. row ! 0) (drop 1 compartment_sheet)) (map snd vols)"
    and cv: "map (\<lambda>row. np_double F (row ! 1)) (drop 1 compartment_sheet) = map Inr (map snd vols)"
    by (simp_all add: comps comp_def)
  from try_map_initial_values [OF i1]
  have sl: "list_all (\<lambda>row. 2 < length row) (drop 1 species_sheet)"
    and ics: "ics = zip (map (\<lambda>row. row ! 0) (drop 1 species_sheet)) (map snd ics)"
    and sv: "map (\<lambda>row. np_double F (row ! 2)) (drop 1 species_sheet) = map Inr (map snd ics)"
    by simp_all
  from reaction_loop_rows [OF loop] obtain res where len: "length res = length (drop 1 ratelaw_sheet)"
    and each: "\<forall>i < length (drop 1 ratelaw_sheet).
        reaction_row F (stoic_sheet ! 0) stoic (0 + i) (drop 1 ratelaw_sheet ! i) no_params = Inr (res ! i)"
    and outs: "outs = [] @ map fst res"
    and ps: "ps = foldl append_params no_params (map snd res)"
    by blast
  have l: "length res = length ratelaw_sheet - 1"
    using len by simp
  have e: "\<forall>i < length res.
      reaction_row F (stoic_sheet ! 0) stoic i (ratelaw_sheet ! (i + 1)) no_params = Inr (res ! i)"
    using each len by simp
  have lp: "reaction_loop F (stoic_sheet ! 0) stoic 0 (drop 1 ratelaw_sheet) ([], no_params)
       = Inr (map fst res, ps)"
    using loop outs by simp
  have sp: "zip (map (\<lambda>val. val ! 0) (drop 1 species_sheet)) species_compartments
      = map (\<lambda>row. (row ! 0, row ! 1)) (drop 1 species_sheet)"
    unfolding sc by (simp add: zip_map_map zip_same_conv_map)
  have nm: "map fst comps = map (\<lambda>row. row ! 0) (drop 1 compartment_sheet)"
    by (simp add: comps comp_def)
  have text_eq: "model_text m =
       header_text
       @ compartments_text (map (\<lambda>row. row ! 0) (drop 1 compartment_sheet))
       @ species_text (map (\<lambda>row. (row ! 0, row ! 1)) (drop 1 species_sheet))
       @ reactions_text (map fst res)
       @ compartment_inits F (zip (map (\<lambda>row. row ! 0) (drop 1 compartment_sheet)) (map snd vols))
       @ species_inits F (zip (map (\<lambda>row. row ! 0) (drop 1 species_sheet)) (map snd ics))
       @ param_inits F ps @ footer_text"
    using mt outs vols ics by (simp only: sp nm append_Nil)
  from cs ss st rl rows cl sl cv sv l e lp ps tab text_eq show ?thesis
    by blast
qed

lemma reaction_row_out:
  assumes "reaction_row F cols stoic i row ps = Inr (out, ps')"
  shows "(out = None) = (expand_reactants i stoic = [] \<and> expand_products i stoic = [])"
    and "out = Some line \<Longrightarrow>
       \<exists>formula. line = reaction_line (cols ! i) (expand_reactants i stoic)
                   (expand_products i stoic) formula (row ! 1)"
  using assms
  by (auto simp: reaction_row_unfold bind_err_Inr index_def nth_opt_def
      split: if_splits option.splits)

lemma reaction_loop_aligned:
  "reaction_loop F cols stoic k rows (outs0, ps0) = Inr (outs, ps) \<Longrightarrow> aligned ps0 \<Longrightarrow> aligned ps"
proof (induction rows arbitrary: k outs0 ps0)
  case Nil
  then show ?case by simp
next
  case (Cons row rows)
  from Cons.prems(1) obtain out ps1 where row: "reaction_row F cols stoic k row ps0 = Inr (out, ps1)"
    and rest: "reaction_loop F cols stoic (Suc k) rows (outs0 @ [out], ps1) = Inr (outs, ps)"
    by (auto split: sum.splits)
  from reaction_row_aligned [OF row Cons.prems(2)] Cons.IH [OF rest] show ?case by blast
qed

lemma reaction_row_line:
  assumes "reaction_row F cols stoic i row ps = Inr (out, ps')"
  shows "\<exists>formula.
     rate_formula F i row
       (''k'' @ str_nat (i + 1) @ ''*'' @ concat (map (\<lambda>s. s @ ''*'') (expand_reactants i stoic))) ps
       = Inr (formula, ps') \<and>
     (case out of None \<Rightarrow> [] | Some line \<Rightarrow> line) =
       (if expand_reactants i stoic = [] \<and> expand_products i stoic = [] then []
        else ''  '' @ cols ! i @ '': '' @ join '' + '' (expand_reactants i stoic) @ '' => ''
             @ join '' + '' (expand_products i stoic) @ ''; ('' @ formula @ '')*''
             @ row ! 1 @ '';'' @ [LF])"
  using assms
  by (auto simp: reaction_row_unfold bind_err_Inr index_def nth_opt_def reaction_line_def
      split: if_splits option.splits)

lemma concat_map_index:
  assumes "\<forall>i < length xs. g (xs ! i) = h i"
  shows "concat (map g xs) = concat (map h [0 ..< length xs])"
proof -
  have "map g xs = map (\<lambda>i. g (xs ! i)) [0 ..< length xs]"
    by (rule nth_equalityI) simp_all
  also from assms have "\<dots> = map h [0 ..< length xs]"
    by simp
  finally show ?thesis by simp
qed

lemma ex_model_text:
  "model_text ex_model =
     ''# PanCancer Model by Birtwistle Lab '' @ [LF]
     @ ''model SPARCED()'' @ [LF]
     @ [LF]
     @ ''  # Compartments and Species:'' @ [LF]
     @ ''  Compartment Cytoplasm;   Compartment Nucleus; '' @ [LF]
     @ [LF]
     @ ''  Species S1 in Cytoplasm;'' @ [LF]
     @ [LF]
     @ [LF]
     @ ''  # Reactions:'' @ [LF]
     @ ''  R1: S1 => ; (k1*S1)*Cytoplasm;'' @ [LF]
     @ [LF]
     @ ''  # Compartment initializations:'' @ [LF]
     @ ''  Cytoplasm = 5;'' @ [LF]
     @ ''  Cytoplasm has volume;'' @ [LF]
     @ ''  Nucleus = 2;'' @ [LF]
     @ ''  Nucleus has volume;'' @ [LF]
     @ [LF]
     @ ''  # Species initializations:'' @ [LF]
     @ ''  S1 = 100;'' @ [LF]
     @ [LF]
     @ ''  # Parameter initializations:'' @ [LF]
     @ ''  k1 = 3;'' @ [LF]
     @ ''  k2 = 7;'' @ [LF]
     @ [LF]
     @ ''  # Other declarations:'' @ [LF]
     @ ''  const  Cytoplasm,  Extracellular,  Nucleus,  Mitochondrion;'' @ [LF]
     @ [LF]
     @ ''  # Unit definitions:'' @ [LF]
     @ ''  unit time_unit = second;'' @ [LF]
     @ ''  unit volume = litre;'' @ [LF]
     @ ''  unit substance = 1e-9 mole;'' @ [LF]
     @ ''  unit nM = 1e-9 mole / litre;'' @ [LF]
     @ [LF]
     @ ''end''"
  by (simp add: ex_model_def header_text_def compartments_text_def species_text_def
      reactions_text_def compartment_inits_def species_inits_def param_inits_def init_line_def
      footer_text_def ex_params_def str_int_def text_eval)

text \<open>
  C4. The text of the model of a successful run is given in full. Its block of
  reactions, between the declarations of the species and the initializations of the
  compartments, is the header of the block followed by one piece per row of the
  rate-law sheet, in order: nothing for a row whose expanded reactant and product
  lists are both empty, and for every other row the reaction line, with the name of
  the reaction, those lists, the formula that the rate-law branch yields for the row,
  and the row's compartment. The rest of the text holds the declarations and the
  initial values only.
\<close>

theorem reaction_written_iff:
  assumes "write_model r F fs = Inr m"
  shows "\<exists>compartment_sheet species_sheet stoic_sheet ratelaw_sheet stoic cvals svals outs ps formulas.
     read_table r fs ''Compartments.txt'' = Inr compartment_sheet \<and>
     read_table r fs ''Species.txt'' = Inr species_sheet \<and>
     read_table r fs ''StoicMat.txt'' = Inr stoic_sheet \<and>
     read_table r fs ''Ratelaws.txt'' = Inr ratelaw_sheet \<and>
     stoic_rows stoic_sheet = Inr stoic \<and>
     map (\<lambda>row. np_double F (row ! 1)) (drop 1 compartment_sheet) = map Inr cvals \<and>
     map (\<lambda>row. np_double F (row ! 2)) (drop 1 species_sheet) = map Inr svals \<and>
     reaction_loop F (stoic_sheet ! 0) stoic 0 (drop 1 ratelaw_sheet) ([], no_params) = Inr (outs, ps) \<and>
     length formulas = length ratelaw_sheet - 1 \<and>
     (\<forall>i < length formulas. \<exists>new.
        rate_formula F i (ratelaw_sheet ! (i + 1))
          (''k'' @ str_nat (i + 1) @ ''*'' @ concat (map (\<lambda>s. s @ ''*'') (expand_reactants i stoic)))
          no_params
        = Inr (formulas ! i, new)) \<and>
     model_text m =
       header_text
       @ compartments_text (map (\<lambda>row. row ! 0) (drop 1 compartment_sheet))
       @ species_text (map (\<lambda>row. (row ! 0, row ! 1)) (drop 1 species_sheet))
       @ [LF, LF] @ ''  # Reactions:'' @ [LF]
       @ concat (map (\<lambda>i.
           if expand_reactants i stoic = [] \<and> expand_products i stoic = [] then []
           else ''  '' @ stoic_sheet ! 0 ! i @ '': '' @ join '' + '' (expand_reactants i stoic)
                @ '' => '' @ join '' + '' (expand_products i stoic) @ ''; ('' @ formulas ! i
                @ '')*'' @ ratelaw_sheet ! (i + 1) ! 1 @ '';'' @ [LF])
           [0 ..< length formulas])
       @ compartment_inits F (zip (map (\<lambda>row. row ! 0) (drop 1 compartment_sheet)) cvals)
       @ species_inits F (zip (map (\<lambda>row. row ! 0) (drop 1 species_sheet)) svals)
       @ param_inits F ps @ footer_text"
proof -
  from write_model_text [OF assms] obtain compartment_sheet species_sheet stoic_sheet
      ratelaw_sheet stoic cvals svals res ps
    where cs: "read_table r fs ''Compartments.txt'' = Inr compartment_sheet"
      and ss: "read_table r fs ''Species.txt'' = Inr species_sheet"
      and st: "read_table r fs ''StoicMat.txt'' = Inr stoic_sheet"
      and rl: "read_table r fs ''Ratelaws.txt'' = Inr ratelaw_sheet"
      and rows: "stoic_rows stoic_sheet = Inr stoic"
      and cv: "map (\<lambda>row. np_double F (row ! 1)) (drop 1 compartment_sheet) = map Inr cvals"
      and sv: "map (\<lambda>row. np_double F (row ! 2)) (drop 1 species_sheet) = map Inr svals"
      and len: "length res = length ratelaw_sheet - 1"
      and each: "\<forall>i < length res.
          reaction_row F (stoic_sheet ! 0) stoic i (ratelaw_sheet ! (i + 1)) no_params = Inr (res ! i)"
      and loop: "reaction_loop F (stoic_sheet ! 0) stoic 0 (drop 1 ratelaw_sheet) ([], no_params)
          = Inr (map fst res, ps)"
      and mt: "model_text m =
         header_text
         @ compartments_text (map (\<lambda>row. row ! 0) (drop 1 compartment_sheet))
         @ species_text (map (\<lambda>row. (row ! 0, row ! 1)) (drop 1 species_sheet))
         @ reactions_text (map fst res)
         @ compartment_inits F (zip (map (\<lambda>row. row ! 0) (drop 1 compartment_sheet)) cvals)
         @ species_inits F (zip (map (\<lambda>row. row ! 0) (drop 1 species_sheet)) svals)
         @ param_inits F ps @ footer_text"
    by blast
  let ?mass = "\<lambda>i. ''k'' @ str_nat (i + 1) @ ''*''
      @ concat (map (\<lambda>s. s @ ''*'') (expand_reactants i stoic))"
  let ?rf = "\<lambda>i. rate_formula F i (ratelaw_sheet ! (i + 1)) (?mass i) no_params"
  define formulas where "formulas = map (\<lambda>i. fst (projr (?rf i))) [0 ..< length res]"
  let ?line = "\<lambda>i. if expand_reactants i stoic = [] \<and> expand_products i stoic = [] then []
           else ''  '' @ stoic_sheet ! 0 ! i @ '': '' @ join '' + '' (expand_reactants i stoic)
                @ '' => '' @ join '' + '' (expand_products i stoic) @ ''; ('' @ formulas ! i
                @ '')*'' @ ratelaw_sheet ! (i + 1) ! 1 @ '';'' @ [LF]"
  have lf: "length formulas = length res"
    by (simp add: formulas_def)
  have row: "(\<exists>new. ?rf i = Inr (formulas ! i, new)) \<and>
      (case fst (res ! i) of None \<Rightarrow> [] | Some line \<Rightarrow> line) = ?line i"
    if i: "i < length res" for i
  proof -
    from each i have "reaction_row F (stoic_sheet ! 0) stoic i (ratelaw_sheet ! (i + 1)) no_params
        = Inr (fst (res ! i), snd (res ! i))"
      by simp
    from reaction_row_line [OF this] obtain formula
      where f: "?rf i = Inr (formula, snd (res ! i))"
        and l: "(case fst (res ! i) of None \<Rightarrow> [] | Some line \<Rightarrow> line) =
          (if expand_reactants i stoic = [] \<and> expand_products i stoic = [] then []
           else ''  '' @ stoic_sheet ! 0 ! i @ '': '' @ join '' + '' (expand_reactants i stoic)
                @ '' => '' @ join '' + '' (expand_products i stoic) @ ''; ('' @ formula
                @ '')*'' @ ratelaw_sheet ! (i + 1) ! 1 @ '';'' @ [LF])"
      by blast
    from f i have "formulas ! i = formula"
      by (simp add: formulas_def)
    with f l show ?thesis by auto
  qed
  have "concat (map (\<lambda>out. case out of None \<Rightarrow> [] | Some line \<Rightarrow> line) (map fst res))
      = concat (map (\<lambda>x. case fst x of None \<Rightarrow> [] | Some line \<Rightarrow> line) res)"
    by (simp add: comp_def)
  also have "\<dots> = concat (map ?line [0 ..< length res])"
    using row by (intro concat_map_index) simp
  finally have block: "reactions_text (map fst res)
      = [LF, LF] @ ''  # Reactions:'' @ [LF] @ concat (map ?line [0 ..< length formulas])"
    by (simp add: reactions_text_def lf)
  have fs: "\<forall>i < length formulas. \<exists>new. ?rf i = Inr (formulas ! i, new)"
    using row lf by simp
  have l: "length formulas = length ratelaw_sheet - 1"
    using lf len by simp
  have "model_text m =
       header_text
       @ compartments_text (map (\<lambda>row. row ! 0) (drop 1 compartment_sheet))
       @ species_text (map (\<lambda>row. (row ! 0, row ! 1)) (drop 1 species_sheet))
       @ [LF, LF] @ ''  # Reactions:'' @ [LF]
       @ concat (map ?line [0 ..< length formulas])
       @ compartment_inits F (zip (map (\<lambda>row. row ! 0) (drop 1 compartment_sheet)) cvals)
       @ species_inits F (zip (map (\<lambda>row. row ! 0) (drop 1 species_sheet)) svals)
       @ param_inits F ps @ footer_text"
    unfolding mt block by simp
  with cs ss st rl rows cv sv loop l fs show ?thesis
    by blast
qed

text \<open>
  C5. The names in the list \<open>paramnames\<close> that the reaction loop builds from empty lists
  are pairwise distinct, and so are the names in the first column of the parameter
  table of a successful run.
\<close>

theorem paramnames_distinct:
  "(reaction_loop F cols stoic 0 rows ([], no_params) = Inr (outs, ps) \<longrightarrow> distinct (paramnames ps)) \<and>
   (write_model r F fs = Inr m \<longrightarrow> distinct (map fst (params_all m)))"
proof (intro conjI impI)
  assume "reaction_loop F cols stoic 0 rows ([], no_params) = Inr (outs, ps)"
  from reaction_loop_names [OF this] show "distinct (paramnames ps)"
    by (auto simp: no_params_def)
next
  assume "write_model r F fs = Inr m"
  from write_model_Inr [OF this] obtain cols stoic rows outs ps
    where loop: "reaction_loop F cols stoic 0 rows ([], no_params) = Inr (outs, ps)"
      and tab: "params_all m = params_table ps"
    by blast
  from reaction_loop_names [OF loop] have "distinct (paramnames ps)"
    by (auto simp: no_params_def)
  moreover from reaction_loop_aligned [OF loop] have "aligned ps"
    by simp
  ultimately show "distinct (map fst (params_all m))"
    by (simp add: tab paramnames_params_table)
qed

subsection \<open>The example run\<close>

lemma ex_tables:
  "read_table True ex_fs ''Compartments.txt''
     = Inr [[''comp'', ''vol'', ''ann''], [''Cytoplasm'', ''5'', ''GO:1''], [''Nucleus'', ''2'', ''GO:2'']]"
  "read_table True ex_fs ''Species.txt'' = Inr [[''sp'', ''comp'', ''ic''], [''S1'', ''Cytoplasm'', ''100'']]"
  "read_table True ex_fs ''StoicMat.txt'' = Inr [[''R1'', ''R2''], [''S1'', ''-1'', ''0'']]"
  "read_table True ex_fs ''Ratelaws.txt''
     = Inr [[''rxn'', ''comp'', ''law''], [''v1'', ''Cytoplasm'', ''3''], [''v2'', ''Cytoplasm'', ''7'']]"
  by (simp_all add: read_table_def ex_fs_def np_array_def parse_line_def strip_def strip_chars_def
      isspace_def)

lemma ex_row1:
  "reaction_row int_floats [''R1'', ''R2''] [(''S1'', [''-1'', ''0''])] 0 [''v1'', ''Cytoplasm'', ''3''] ps
     = Inr (Some (''  R1: S1 => ; (k1*S1)*Cytoplasm;'' @ [LF]), add_param ''k1'' (Num 3) ''v1'' 0 ps)"
proof -
  have "expand_stoic 0 [(''S1'', [''-1'', ''0''])] ([], [], ''k'' @ str_nat (0 + 1) @ ''*'')
      = Inr ([''S1''], [], ''k1*S1*'')"
    by (simp add: text_eval)
  moreover have "rate_formula int_floats 0 [''v1'', ''Cytoplasm'', ''3''] ''k1*S1*'' ps
      = Inr (''k1*S1'', add_param ''k1'' (Num 3) ''v1'' 0 ps)"
    unfolding rate_formula_def Let_def nth_opt_drop1
    by (simp add: kname_def text_eval)
  ultimately show ?thesis
    unfolding reaction_row_def
    by (simp add: reaction_line_def text_eval)
qed

lemma ex_row2:
  "reaction_row int_floats [''R1'', ''R2''] [(''S1'', [''-1'', ''0''])] 1 [''v2'', ''Cytoplasm'', ''7''] ps
     = Inr (None, add_param ''k2'' (Num 7) ''v2'' 0 ps)"
proof -
  have "expand_stoic 1 [(''S1'', [''-1'', ''0''])] ([], [], ''k'' @ str_nat (1 + 1) @ ''*'')
      = Inr ([], [], ''k2*'')"
    by (simp add: text_eval)
  moreover have "rate_formula int_floats 1 [''v2'', ''Cytoplasm'', ''7''] ''k2*'' ps
      = Inr (''k2'', add_param ''k2'' (Num 7) ''v2'' 0 ps)"
    unfolding rate_formula_def Let_def nth_opt_drop1
    by (simp add: kname_def text_eval)
  ultimately show ?thesis
    unfolding reaction_row_def
    by simp
qed

lemma ex_loop:
  "reaction_loop int_floats [''R1'', ''R2''] [(''S1'', [''-1'', ''0''])] 0
       [[''v1'', ''Cytoplasm'', ''3''], [''v2'', ''Cytoplasm'', ''7'']] ([], no_params)
     = Inr ([Some (''  R1: S1 => ; (k1*S1)*Cytoplasm;'' @ [LF]), None], ex_params)"
  using ex_row1 [of no_params] ex_row2 [of "add_param ''k1'' (Num 3) ''v1'' 0 no_params"]
  by (simp add: add_param_def no_params_def ex_params_def)

lemma ex_run: "write_model True int_floats ex_fs = Inr ex_model"
proof -
  have comps: "try_map (\<lambda>row. bind_err (index row 0) (\<lambda>name. bind_err (index row 1) (\<lambda>vol. Inr (name, vol))))
        [[''Cytoplasm'', ''5'', ''GO:1''], [''Nucleus'', ''2'', ''GO:2'']]
      = Inr [(''Cytoplasm'', ''5''), (''Nucleus'', ''2'')]"
    by (simp add: index_def nth_opt_def)
  have sc: "try_map (\<lambda>row. index row 1) [[''S1'', ''Cytoplasm'', ''100'']] = Inr [''Cytoplasm'']"
    by (simp add: index_def nth_opt_def)
  have stoic: "stoic_rows [[''R1'', ''R2''], [''S1'', ''-1'', ''0'']] = Inr [(''S1'', [''-1'', ''0''])]"
    by (simp add: stoic_rows_def)
  have vols: "try_map (\<lambda>(name, vol). bind_err (np_double int_floats vol) (\<lambda>v. Inr (name, v)))
        [(''Cytoplasm'', ''5''), (''Nucleus'', ''2'')]
      = Inr [(''Cytoplasm'', Num 5), (''Nucleus'', Num 2)]"
    by (simp add: np_double_def text_eval)
  have ics: "try_map (\<lambda>val. bind_err (index val 2) (\<lambda>ic. bind_err (np_double int_floats ic)
          (\<lambda>v. Inr (val ! 0, v)))) [[''S1'', ''Cytoplasm'', ''100'']]
      = Inr [(''S1'', Num 100)]"
    by (simp add: np_double_def text_eval)
  show ?thesis
    using comps sc stoic vols ics ex_loop
    unfolding write_model_def ex_tables
    by (simp add: np_array_def index_def nth_opt_def ex_model_def params_table_def ex_params_def
        del: reaction_loop.simps try_map.simps)
qed

theorem reaction_written_iff_witness:
  "write_model True int_floats ex_fs = Inr ex_model \<and>
   (\<exists>compartment_sheet species_sheet stoic_sheet ratelaw_sheet stoic cvals svals outs ps formulas.
     read_table True ex_fs ''Compartments.txt'' = Inr compartment_sheet \<and>
     read_table True ex_fs ''Species.txt'' = Inr species_sheet \<and>
     read_table True ex_fs ''StoicMat.txt'' = Inr stoic_sheet \<and>
     read_table True ex_fs ''Ratelaws.txt'' = Inr ratelaw_sheet \<and>
     stoic_rows stoic_sheet = Inr stoic \<and>
     map (\<lambda>row. np_double int_floats (row ! 1)) (drop 1 compartment_sheet) = map Inr cvals \<and>
     map (\<lambda>row. np_double int_floats (row ! 2)) (drop 1 species_sheet) = map Inr svals \<and>
     reaction_loop int_floats (stoic_sheet ! 0) stoic 0 (drop 1 ratelaw_sheet) ([], no_params)
       = Inr (outs, ps) \<and>
     length formulas = length ratelaw_sheet - 1 \<and>
     (\<forall>i < length formulas. \<exists>new.
        rate_formula int_floats i (ratelaw_sheet ! (i + 1))
          (''k'' @ str_nat (i + 1) @ ''*'' @ concat (map (\<lambda>s. s @ ''*'') (expand_reactants i stoic)))
          no_params
        = Inr (formulas ! i, new)) \<and>
     model_text ex_model =
       header_text
       @ compartments_text (map (\<lambda>row. row ! 0) (drop 1 compartment_sheet))
       @ species_text (map (\<lambda>row. (row ! 0, row ! 1)) (drop 1 species_sheet))
       @ [LF, LF] @ ''  # Reactions:'' @ [LF]
       @ concat (map (\<lambda>i.
           if expand_reactants i stoic = [] \<and> expand_products i stoic = [] then []
           else ''  '' @ stoic_sheet ! 0 ! i @ '': '' @ join '' + '' (expand_reactants i stoic)
                @ '' => '' @ join '' + '' (expand_products i stoic) @ ''; ('' @ formulas ! i
                @ '')*'' @ ratelaw_sheet ! (i + 1) ! 1 @ '';'' @ [LF])
           [0 ..< length formulas])
       @ compartment_inits int_floats (zip (map (\<lambda>row. row ! 0) (drop 1 compartment_sheet)) cvals)
       @ species_inits int_floats (zip (map (\<lambda>row. row ! 0) (drop 1 species_sheet)) svals)
       @ param_inits int_floats ps @ footer_text) \<and>
   expand_reactants 0 [(''S1'', [''-1'', ''0''])] = [''S1''] \<and>
   expand_products 0 [(''S1'', [''-1'', ''0''])] = [] \<and>
   expand_reactants 1 [(''S1'', [''-1'', ''0''])] = [] \<and>
   expand_products 1 [(''S1'', [''-1'', ''0''])] = [] \<and>
   model_text ex_model =
     ''# PanCancer Model by Birtwistle Lab '' @ [LF]
     @ ''model SPARCED()'' @ [LF]
     @ [LF]
     @ ''  # Compartments and Species:'' @ [LF]
     @ ''  Compartment Cytoplasm;   Compartment Nucleus; '' @ [LF]
     @ [LF]
     @ ''  Species S1 in Cytoplasm;'' @ [LF]
     @ [LF]
     @ [LF]
     @ ''  # Reactions:'' @ [LF]
     @ ''  R1: S1 => ; (k1*S1)*Cytoplasm;'' @ [LF]
     @ [LF]
     @ ''  # Compartment initializations:'' @ [LF]
     @ ''  Cytoplasm = 5;'' @ [LF]
     @ ''  Cytoplasm has volume;'' @ [LF]
     @ ''  Nucleus = 2;'' @ [LF]
     @ ''  Nucleus has volume;'' @ [LF]
     @ [LF]
     @ ''  # Species initializations:'' @ [LF]
     @ ''  S1 = 100;'' @ [LF]
     @ [LF]
     @ ''  # Parameter initializations:'' @ [LF]
     @ ''  k1 = 3;'' @ [LF]
     @ ''  k2 = 7;'' @ [LF]
     @ [LF]
     @ ''  # Other declarations:'' @ [LF]
     @ ''  const  Cytoplasm,  Extracellular,  Nucleus,  Mitochondrion;'' @ [LF]
     @ [LF]
     @ ''  # Unit definitions:'' @ [LF]
     @ ''  unit time_unit = second;'' @ [LF]
     @ ''  unit volume = litre;'' @ [LF]
     @ ''  unit substance = 1e-9 mole;'' @ [LF]
     @ ''  unit nM = 1e-9 mole / litre;'' @ [LF]
     @ [LF]
     @ ''end''"
proof -
  have e: "expand_reactants 0 [(''S1'', [''-1'', ''0''])] = [''S1'']"
    "expand_products 0 [(''S1'', [''-1'', ''0''])] = []"
    "expand_reactants 1 [(''S1'', [''-1'', ''0''])] = []"
    "expand_products 1 [(''S1'', [''-1'', ''0''])] = []"
    by (simp_all add: expand_reactants_def expand_products_def stoic_value_def text_eval)
  from reaction_written_iff [OF ex_run] ex_run e ex_model_text show ?thesis
    by (intro conjI)
qed

theorem paramnames_distinct_witness:
  "reaction_loop int_floats [''R1'', ''R2''] [(''S1'', [''-1'', ''0''])] 0
       [[''v1'', ''Cytoplasm'', ''3''], [''v2'', ''Cytoplasm'', ''7'']] ([], no_params)
     = Inr ([Some (''  R1: S1 => ; (k1*S1)*Cytoplasm;'' @ [LF]), None], ex_params) \<and>
   distinct (paramnames ex_params) \<and>
   write_model True int_floats ex_fs = Inr ex_model \<and>
   distinct (map fst (params_all ex_model))"
  using paramnames_distinct [of int_floats "[''R1'', ''R2'']" "[(''S1'', [''-1'', ''0''])]"
      "[[''v1'', ''Cytoplasm'', ''3''], [''v2'', ''Cytoplasm'', ''7'']]"
      "[Some (''  R1: S1 => ; (k1*S1)*Cytoplasm;'' @ [LF]), None]" ex_params True ex_fs ex_model]
    ex_loop ex_run
  by blast

subsection \<open>Parameters of the rows that write no line\<close>

lemma paramnames_foldl:
  "paramnames (foldl append_params a bs) = paramnames a @ concat (map paramnames bs)"
  by (induction bs arbitrary: a) (simp_all add: append_params_def)

lemma paramvals_foldl:
  "paramvals (foldl append_params a bs) = paramvals a @ concat (map paramvals bs)"
  by (induction bs arbitrary: a) (simp_all add: append_params_def)

lemma zip_names_vals_foldl:
  "aligned a \<Longrightarrow> list_all aligned bs \<Longrightarrow>
     zip (paramnames (foldl append_params a bs)) (paramvals (foldl append_params a bs))
       = zip (paramnames a) (paramvals a) @ concat (map (\<lambda>p. zip (paramnames p) (paramvals p)) bs)"
proof (induction bs arbitrary: a)
  case Nil
  show ?case by simp
next
  case (Cons b bs)
  from Cons.prems have al: "aligned (append_params a b)" "list_all aligned bs"
    by (simp_all add: aligned_append)
  have "zip (paramnames (append_params a b)) (paramvals (append_params a b))
      = zip (paramnames a) (paramvals a) @ zip (paramnames b) (paramvals b)"
    using Cons.prems(1) by (simp add: append_params_def aligned_def)
  with Cons.IH [OF al] show ?case by simp
qed

lemma params_table_no_params: "params_table no_params = []"
  by (simp add: params_table_def no_params_def)

lemma no_params_fields:
  "paramnames no_params = []" "paramvals no_params = []"
  by (simp_all add: no_params_def)

lemma concat_map_concat_map:
  "concat (map g (concat (map f xs))) = concat (map (\<lambda>x. concat (map g (f x))) xs)"
  by (induction xs) simp_all

text \<open>
  C9. In a successful run every row of the rate-law sheet allocates its parameters
  (those its body yields from empty lists) whether or not it writes a reaction line.
  For a row whose expanded reactant and product lists are both empty the loop writes
  nothing into the block of reactions; all the same, the lists \<open>paramnames\<close> and
  \<open>paramvals\<close> are the parameters of all the rows in order, the table written to
  ParamsAll.txt has one line for each of them, and the block of parameter
  initializations of the model text, which stands right before the closing
  declarations, has for each of them the line with its name and its value.
\<close>

theorem dropped_reaction_params:
  assumes "write_model r F fs = Inr m"
  shows "\<exists>compartment_sheet species_sheet stoic_sheet ratelaw_sheet stoic cvals svals res ps.
     read_table r fs ''Compartments.txt'' = Inr compartment_sheet \<and>
     read_table r fs ''Species.txt'' = Inr species_sheet \<and>
     read_table r fs ''StoicMat.txt'' = Inr stoic_sheet \<and>
     read_table r fs ''Ratelaws.txt'' = Inr ratelaw_sheet \<and>
     stoic_rows stoic_sheet = Inr stoic \<and>
     map (\<lambda>row. np_double F (row ! 1)) (drop 1 compartment_sheet) = map Inr cvals \<and>
     map (\<lambda>row. np_double F (row ! 2)) (drop 1 species_sheet) = map Inr svals \<and>
     length res = length ratelaw_sheet - 1 \<and>
     reaction_loop F (stoic_sheet ! 0) stoic 0 (drop 1 ratelaw_sheet) ([], no_params)
       = Inr (map fst res, ps) \<and>
     (\<forall>i < length res.
        reaction_row F (stoic_sheet ! 0) stoic i (ratelaw_sheet ! (i + 1)) no_params = Inr (res ! i) \<and>
        (expand_reactants i stoic = [] \<and> expand_products i stoic = [] \<longrightarrow> fst (res ! i) = None)) \<and>
     paramnames ps = concat (map (\<lambda>(out, new). paramnames new) res) \<and>
     paramvals ps = concat (map (\<lambda>(out, new). paramvals new) res) \<and>
     params_all m =
       concat (map (\<lambda>(out, new).
          zip (paramnames new) (zip (paramvals new) (zip (paramrxns new) (paramidxs new)))) res) \<and>
     model_text m =
       header_text
       @ compartments_text (map (\<lambda>row. row ! 0) (drop 1 compartment_sheet))
       @ species_text (map (\<lambda>row. (row ! 0, row ! 1)) (drop 1 species_sheet))
       @ [LF, LF] @ ''  # Reactions:'' @ [LF]
       @ concat (map (\<lambda>(out, new). case out of None \<Rightarrow> [] | Some line \<Rightarrow> line) res)
       @ compartment_inits F (zip (map (\<lambda>row. row ! 0) (drop 1 compartment_sheet)) cvals)
       @ species_inits F (zip (map (\<lambda>row. row ! 0) (drop 1 species_sheet)) svals)
       @ [LF] @ ''  # Parameter initializations:'' @ [LF]
       @ concat (map (\<lambda>(out, new).
           concat (map (\<lambda>(name, v). ''  '' @ name @ '' = '' @ fmt_e F v @ '';'' @ [LF])
             (zip (paramnames new) (paramvals new)))) res)
       @ footer_text"
proof -
  from write_model_text [OF assms] obtain compartment_sheet species_sheet stoic_sheet
      ratelaw_sheet stoic cvals svals res ps
    where cs: "read_table r fs ''Compartments.txt'' = Inr compartment_sheet"
      and ss: "read_table r fs ''Species.txt'' = Inr species_sheet"
      and st: "read_table r fs ''StoicMat.txt'' = Inr stoic_sheet"
      and rl: "read_table r fs ''Ratelaws.txt'' = Inr ratelaw_sheet"
      and rows: "stoic_rows stoic_sheet = Inr stoic"
      and cv: "map (\<lambda>row. np_double F (row ! 1)) (drop 1 compartment_sheet) = map Inr cvals"
      and sv: "map (\<lambda>row. np_double F (row ! 2)) (drop 1 species_sheet) = map Inr svals"
      and len: "length res = length ratelaw_sheet - 1"
      and each: "\<forall>i < length res.
          reaction_row F (stoic_sheet ! 0) stoic i (ratelaw_sheet ! (i + 1)) no_params = Inr (res ! i)"
      and loop: "reaction_loop F (stoic_sheet ! 0) stoic 0 (drop 1 ratelaw_sheet) ([], no_params)
          = Inr (map fst res, ps)"
      and ps: "ps = foldl append_params no_params (map snd res)"
      and tab: "params_all m = params_table ps"
      and mt: "model_text m =
         header_text
         @ compartments_text (map (\<lambda>row. row ! 0) (drop 1 compartment_sheet))
         @ species_text (map (\<lambda>row. (row ! 0, row ! 1)) (drop 1 species_sheet))
         @ reactions_text (map fst res)
         @ compartment_inits F (zip (map (\<lambda>row. row ! 0) (drop 1 compartment_sheet)) cvals)
         @ species_inits F (zip (map (\<lambda>row. row ! 0) (drop 1 species_sheet)) svals)
         @ param_inits F ps @ footer_text"
    by blast
  have row: "reaction_row F (stoic_sheet ! 0) stoic i (ratelaw_sheet ! (i + 1)) no_params
      = Inr (fst (res ! i), snd (res ! i))" if "i < length res" for i
    using each that by simp
  have al: "list_all aligned (map snd res)"
    unfolding list_all_length
  proof (intro allI impI)
    fix i assume "i < length (map snd res)"
    then have i: "i < length res" by simp
    from reaction_row_aligned [OF row [OF i]] i show "aligned (map snd res ! i)"
      by simp
  qed
  have rows_ok: "\<forall>i < length res.
        reaction_row F (stoic_sheet ! 0) stoic i (ratelaw_sheet ! (i + 1)) no_params = Inr (res ! i) \<and>
        (expand_reactants i stoic = [] \<and> expand_products i stoic = [] \<longrightarrow> fst (res ! i) = None)"
  proof (intro allI impI conjI)
    fix i assume i: "i < length res"
    from each i show "reaction_row F (stoic_sheet ! 0) stoic i (ratelaw_sheet ! (i + 1)) no_params
        = Inr (res ! i)"
      by simp
    assume "expand_reactants i stoic = [] \<and> expand_products i stoic = []"
    with reaction_row_out(1) [OF row [OF i]] show "fst (res ! i) = None"
      by simp
  qed
  have names: "paramnames ps = concat (map (\<lambda>(out, new). paramnames new) res)"
    by (simp add: ps paramnames_foldl no_params_def comp_def case_prod_unfold)
  have vals: "paramvals ps = concat (map (\<lambda>(out, new). paramvals new) res)"
    by (simp add: ps paramvals_foldl no_params_def comp_def case_prod_unfold)
  have "params_table ps = concat (map params_table (map snd res))"
    using params_table_foldl [OF aligned_simps(1) al]
    by (simp add: ps params_table_no_params)
  then have table: "params_all m =
       concat (map (\<lambda>(out, new).
          zip (paramnames new) (zip (paramvals new) (zip (paramrxns new) (paramidxs new)))) res)"
    by (simp add: tab comp_def case_prod_unfold params_table_def)
  have z: "zip (paramnames ps) (paramvals ps)
      = concat (map (\<lambda>p. zip (paramnames p) (paramvals p)) (map snd res))"
    using zip_names_vals_foldl [OF aligned_simps(1) al]
    by (simp add: ps no_params_fields)
  have inits: "param_inits F ps =
      [LF] @ ''  # Parameter initializations:'' @ [LF]
       @ concat (map (\<lambda>(out, new).
           concat (map (\<lambda>(name, v). ''  '' @ name @ '' = '' @ fmt_e F v @ '';'' @ [LF])
             (zip (paramnames new) (paramvals new)))) res)"
    unfolding param_inits_def z concat_map_concat_map
    by (simp add: comp_def case_prod_unfold init_line_def)
  have block: "reactions_text (map fst res) =
      [LF, LF] @ ''  # Reactions:'' @ [LF]
       @ concat (map (\<lambda>(out, new). case out of None \<Rightarrow> [] | Some line \<Rightarrow> line) res)"
    by (simp add: reactions_text_def comp_def case_prod_unfold)
  have "model_text m =
       header_text
       @ compartments_text (map (\<lambda>row. row ! 0) (drop 1 compartment_sheet))
       @ species_text (map (\<lambda>row. (row ! 0, row ! 1)) (drop 1 species_sheet))
       @ [LF, LF] @ ''  # Reactions:'' @ [LF]
       @ concat (map (\<lambda>(out, new). case out of None \<Rightarrow> [] | Some line \<Rightarrow> line) res)
       @ compartment_inits F (zip (map (\<lambda>row. row ! 0) (drop 1 compartment_sheet)) cvals)
       @ species_inits F (zip (map (\<lambda>row. row ! 0) (drop 1 species_sheet)) svals)
       @ [LF] @ ''  # Parameter initializations:'' @ [LF]
       @ concat (map (\<lambda>(out, new).
           concat (map (\<lambda>(name, v). ''  '' @ name @ '' = '' @ fmt_e F v @ '';'' @ [LF])
             (zip (paramnames new) (paramvals new)))) res)
       @ footer_text"
    unfolding mt inits block by simp
  with cs ss st rl rows cv sv len loop rows_ok names vals table show ?thesis
    by blast
qed

theorem dropped_reaction_params_witness:
  "write_model True int_floats ex_fs = Inr ex_model \<and>
   (\<exists>compartment_sheet species_sheet stoic_sheet ratelaw_sheet stoic cvals svals res ps.
     read_table True ex_fs ''Compartments.txt'' = Inr compartment_sheet \<and>
     read_table True ex_fs ''Species.txt'' = Inr species_sheet \<and>
     read_table True ex_fs ''StoicMat.txt'' = Inr stoic_sheet \<and>
     read_table True ex_fs ''Ratelaws.txt'' = Inr ratelaw_sheet \<and>
     stoic_rows stoic_sheet = Inr stoic \<and>
     map (\<lambda>row. np_double int_floats (row ! 1)) (drop 1 compartment_sheet) = map Inr cvals \<and>
     map (\<lambda>row. np_double int_floats (row ! 2)) (drop 1 species_sheet) = map Inr svals \<and>
     length res = length ratelaw_sheet - 1 \<and>
     reaction_loop int_floats (stoic_sheet ! 0) stoic 0 (drop 1 ratelaw_sheet) ([], no_params)
       = Inr (map fst res, ps) \<and>
     (\<forall>i < length res.
        reaction_row int_floats (stoic_sheet ! 0) stoic i (ratelaw_sheet ! (i + 1)) no_params
          = Inr (res ! i) \<and>
        (expand_reactants i stoic = [] \<and> expand_products i stoic = [] \<longrightarrow> fst (res ! i) = None)) \<and>
     paramnames ps = concat (map (\<lambda>(out, new). paramnames new) res) \<and>
     paramvals ps = concat (map (\<lambda>(out, new). paramvals new) res) \<and>
     params_all ex_model =
       concat (map (\<lambda>(out, new).
          zip (paramnames new) (zip (paramvals new) (zip (paramrxns new) (paramidxs new)))) res) \<and>
     model_text ex_model =
       header_text
       @ compartments_text (map (\<lambda>row. row ! 0) (drop 1 compartment_sheet))
       @ species_text (map (\<lambda>row. (row ! 0, row ! 1)) (drop 1 species_sheet))
       @ [LF, LF] @ ''  # Reactions:'' @ [LF]
       @ concat (map (\<lambda>(out, new). case out of None \<Rightarrow> [] | Some line \<Rightarrow> line) res)
       @ compartment_inits int_floats (zip (map (\<lambda>row. row ! 0) (drop 1 compartment_sheet)) cvals)
       @ species_inits int_floats (zip (map (\<lambda>row. row ! 0) (drop 1 species_sheet)) svals)
       @ [LF] @ ''  # Parameter initializations:'' @ [LF]
       @ concat (map (\<lambda>(out, new).
           concat (map (\<lambda>(name, v). ''  '' @ name @ '' = '' @ fmt_e int_floats v @ '';'' @ [LF])
             (zip (paramnames new) (paramvals new)))) res)
       @ footer_text) \<and>
   expand_reactants 1 [(''S1'', [''-1'', ''0''])] = [] \<and>
   expand_products 1 [(''S1'', [''-1'', ''0''])] = [] \<and>
   reaction_row int_floats [''R1'', ''R2''] [(''S1'', [''-1'', ''0''])] 1 [''v2'', ''Cytoplasm'', ''7'']
       no_params
     = Inr (None, \<lparr>paramnames = [''k2''], paramvals = [Num 7], paramrxns = [''v2''], paramidxs = [0]\<rparr>) \<and>
   params_all ex_model = [(''k1'', Num 3, ''v1'', 0), (''k2'', Num 7, ''v2'', 0)] \<and>
   model_text ex_model =
     ''# PanCancer Model by Birtwistle Lab '' @ [LF]
     @ ''model SPARCED()'' @ [LF]
     @ [LF]
     @ ''  # Compartments and Species:'' @ [LF]
     @ ''  Compartment Cytoplasm;   Compartment Nucleus; '' @ [LF]
     @ [LF]
     @ ''  Species S1 in Cytoplasm;'' @ [LF]
     @ [LF]
     @ [LF]
     @ ''  # Reactions:'' @ [LF]
     @ ''  R1: S1 => ; (k1*S1)*Cytoplasm;'' @ [LF]
     @ [LF]
     @ ''  # Compartment initializations:'' @ [LF]
     @ ''  Cytoplasm = 5;'' @ [LF]
     @ ''  Cytoplasm has volume;'' @ [LF]
     @ ''  Nucleus = 2;'' @ [LF]
     @ ''  Nucleus has volume;'' @ [LF]
     @ [LF]
     @ ''  # Species initializations:'' @ [LF]
     @ ''  S1 = 100;'' @ [LF]
     @ [LF]
     @ ''  # Parameter initializations:'' @ [LF]
     @ ''  k1 = 3;'' @ [LF]
     @ ''  k2 = 7;'' @ [LF]
     @ [LF]
     @ ''  # Other declarations:'' @ [LF]
     @ ''  const  Cytoplasm,  Extracellular,  Nucleus,  Mitochondrion;'' @ [LF]
     @ [LF]
     @ ''  # Unit definitions:'' @ [LF]
     @ ''  unit time_unit = second;'' @ [LF]
     @ ''  unit volume = litre;'' @ [LF]
     @ ''  unit substance = 1e-9 mole;'' @ [LF]
     @ ''  unit nM = 1e-9 mole / litre;'' @ [LF]
     @ [LF]
     @ ''end''"
proof -
  have e: "expand_reactants 1 [(''S1'', [''-1'', ''0''])] = []"
    "expand_products 1 [(''S1'', [''-1'', ''0''])] = []"
    by (simp_all add: expand_reactants_def expand_products_def stoic_value_def text_eval)
  have r: "reaction_row int_floats [''R1'', ''R2''] [(''S1'', [''-1'', ''0''])] 1
       [''v2'', ''Cytoplasm'', ''7''] no_params
     = Inr (None, \<lparr>paramnames = [''k2''], paramvals = [Num 7], paramrxns = [''v2''], paramidxs = [0]\<rparr>)"
    using ex_row2 [of no_params] by (simp add: add_param_def no_params_def)
  have p: "params_all ex_model = [(''k1'', Num 3, ''v1'', 0), (''k2'', Num 7, ''v2'', 0)]"
    by (simp add: ex_model_def)
  from dropped_reaction_params [OF ex_run] ex_run e r p ex_model_text show ?thesis
    by (intro conjI)
qed

section \<open>Properties of the observable formulas\<close>

lemma obs_terms_plus_eq:
  "obs_terms_plus F ts acc = acc @ concat (map (\<lambda>t. obs_term F t @ ''+'') ts)"
  by (induction ts arbitrary: acc) simp_all

lemma join_plus_snoc:
  "xs \<noteq> [] \<Longrightarrow> join ''+'' xs = concat (map (\<lambda>x. x @ ''+'') (butlast xs)) @ last xs"
proof (induction xs rule: join.induct [of _ "''+''"])
  case 1
  then show ?case by simp
next
  case (2 x)
  show ?case by simp
next
  case (3 x y ys)
  then show ?case by simp
qed

lemma obs_formula_join:
  assumes "sp_obs \<noteq> []"
  shows "obs_formula F sp_obs formula_i = Some (join ''+'' (map (obs_term F) sp_obs))"
proof -
  from assms have "length sp_obs \<noteq> 0" by simp
  then consider "length sp_obs = 1" | "length sp_obs = 2" | "length sp_obs > 2"
    by linarith
  then show ?thesis
  proof cases
    case 1
    then obtain a where "sp_obs = [a]"
      by (cases sp_obs) auto
    then show ?thesis by (simp add: obs_formula_def)
  next
    case 2
    then obtain a b where "sp_obs = [a, b]"
      by (cases sp_obs; cases "tl sp_obs") auto
    then show ?thesis by (simp add: obs_formula_def)
  next
    case 3
    have "join ''+'' (map (obs_term F) sp_obs)
        = concat (map (\<lambda>x. x @ ''+'') (butlast (map (obs_term F) sp_obs))) @ last (map (obs_term F) sp_obs)"
      using assms by (intro join_plus_snoc) simp
    also have "\<dots> = obs_terms_plus F (butlast sp_obs) [] @ obs_term F (last sp_obs)"
      using assms by (simp add: obs_terms_plus_eq map_butlast last_map comp_def)
    finally show ?thesis
      using 3 by (simp add: obs_formula_def)
  qed
qed

lemma obs_formula_empty: "obs_formula F [] formula_i = formula_i"
  by (simp add: obs_formula_def)

lemma try_map_Inr:
  "try_map f xs = Inr ys \<Longrightarrow> length ys = length xs \<and> (\<forall>k < length xs. f (xs ! k) = Inr (ys ! k))"
proof (induction xs arbitrary: ys)
  case Nil
  then show ?case by simp
next
  case (Cons x xs)
  from Cons.prems obtain y ys' where y: "f x = Inr y" and ys': "try_map f xs = Inr ys'"
    and ys: "ys = y # ys'"
    by (auto split: sum.splits)
  from Cons.IH [OF ys'] y ys show ?case
    by (auto simp: nth_Cons split: nat.splits)
qed

lemma sp_obs_id_empty: "sp_obs_id F weights = [] \<longleftrightarrow> (\<forall>w \<in> set weights. \<not> fl_pos F w)"
proof
  assume "sp_obs_id F weights = []"
  then have "\<forall>p < length weights. \<not> fl_pos F (weights ! p)"
    by (simp add: sp_obs_id_def filter_empty_conv)
  then show "\<forall>w \<in> set weights. \<not> fl_pos F w"
    by (auto simp: in_set_conv_nth)
next
  assume "\<forall>w \<in> set weights. \<not> fl_pos F w"
  then have "\<forall>p < length weights. \<not> fl_pos F (weights ! p)"
    by simp
  then show "sp_obs_id F weights = []"
    by (simp add: sp_obs_id_def filter_empty_conv)
qed

lemma sp_obs_id_less: "p \<in> set (sp_obs_id F weights) \<Longrightarrow> p < length weights"
  by (simp add: sp_obs_id_def)

lemma Vf_Inr:
  assumes "Vf F vols Vc weights = Inr vf"
  shows "length weights = length vols \<or> length weights = 1"
    and "length vf = length vols"
    and "p < length weights \<Longrightarrow> p < length vols \<Longrightarrow>
           vf ! p = fl_mul F (fl_div F (vols ! p) Vc) (weights ! p)"
  using assms by (auto simp: Vf_def split: if_splits)

lemma Vf_cases:
  "Vf F vols Vc weights =
     (if length weights = length vols \<or> length weights = 1
      then Inr (if length weights = length vols
                then map (\<lambda>(vol, w). fl_mul F (fl_div F vol Vc) w) (zip vols weights)
                else map (\<lambda>vol. fl_mul F (fl_div F vol Vc) (weights ! 0)) vols)
      else Inl ValueError)"
  by (simp add: Vf_def)

text \<open>
  The contributors of a column, when they are computed without error: the rows of
  positive weight, each row \<open>p\<close> with the label in position \<open>p\<close> and the factor made from
  the volume in position \<open>p\<close>.
\<close>

lemma contributors_Inr:
  assumes "contributors F labels vols Vc weights = Inr sp"
  shows "length weights = length vols \<or> length weights = 1"
    and "\<forall>p \<in> set (sp_obs_id F weights). p < length labels \<and> p < length vols"
    and "sp = map (\<lambda>p. (labels ! p, fl_mul F (fl_div F (vols ! p) Vc) (weights ! p)))
               (sp_obs_id F weights)"
proof -
  let ?ids = "sp_obs_id F weights"
  from assms obtain sp_obs vf factors where
    l: "try_map (index labels) ?ids = Inr sp_obs"
    and v: "Vf F vols Vc weights = Inr vf"
    and f: "try_map (\<lambda>p. case nth_opt vf p of None \<Rightarrow> Inl KeyError | Some v \<Rightarrow> Inr v) ?ids
              = Inr factors"
    and sp: "sp = zip sp_obs factors"
    unfolding contributors_def by (auto simp: bind_err_Inr)
  from Vf_Inr(1) [OF v] show "length weights = length vols \<or> length weights = 1" .
  from try_map_Inr [OF l] have ll: "length sp_obs = length ?ids"
    and le: "\<forall>k < length ?ids. index labels (?ids ! k) = Inr (sp_obs ! k)"
    by simp_all
  from try_map_Inr [OF f] have fl: "length factors = length ?ids"
    and fe: "\<forall>k < length ?ids.
        (case nth_opt vf (?ids ! k) of None \<Rightarrow> Inl KeyError | Some v \<Rightarrow> Inr v) = Inr (factors ! k)"
    by simp_all
  have lab: "?ids ! k < length labels \<and> sp_obs ! k = labels ! (?ids ! k)" if "k < length ?ids" for k
    using le that by (auto simp: index_def nth_opt_def split: if_splits)
  have fac: "?ids ! k < length vols \<and>
      factors ! k = fl_mul F (fl_div F (vols ! (?ids ! k)) Vc) (weights ! (?ids ! k))"
    if k: "k < length ?ids" for k
  proof -
    from fe k have a: "?ids ! k < length vf" and b: "factors ! k = vf ! (?ids ! k)"
      by (auto simp: nth_opt_def split: if_splits)
    from k have "?ids ! k \<in> set ?ids" by simp
    then have "?ids ! k < length weights" by (rule sp_obs_id_less)
    with a b Vf_Inr(2,3) [OF v] show ?thesis by simp
  qed
  from lab fac show "\<forall>p \<in> set ?ids. p < length labels \<and> p < length vols"
    by (auto simp: in_set_conv_nth)
  from lab fac ll fl show "sp = map (\<lambda>p. (labels ! p, fl_mul F (fl_div F (vols ! p) Vc) (weights ! p))) ?ids"
    unfolding sp by (auto simp: list_eq_iff_nth_eq)
qed

text \<open>With no row of positive weight only the multiplication can fail.\<close>

lemma contributors_none:
  assumes "\<forall>w \<in> set weights. \<not> fl_pos F w"
  shows "contributors F labels vols Vc weights =
     (if length weights = length vols \<or> length weights = 1 then Inr [] else Inl ValueError)"
proof -
  from assms have "sp_obs_id F weights = []"
    by (simp add: sp_obs_id_empty)
  then show ?thesis
    by (simp add: contributors_def Vf_cases)
qed

lemma obs_loop_Inr:
  "obs_loop F labels vols Vc cols fi acc = Inr fs \<Longrightarrow>
     length fs = length acc + length cols \<and> take (length acc) fs = acc \<and>
     (\<forall>i < length cols. \<exists>sp.
        contributors F labels vols Vc (snd (cols ! i)) = Inr sp \<and>
        Some (fs ! (length acc + i)) =
          obs_formula F sp (if i = 0 then fi else Some (fs ! (length acc + i - 1))))"
proof (induction cols arbitrary: fi acc)
  case Nil
  then show ?case by simp
next
  case (Cons col cols)
  obtain obs weights where col: "col = (obs, weights)" by (cases col)
  from Cons.prems col obtain sp0 f where c0: "contributors F labels vols Vc weights = Inr sp0"
    and f: "obs_formula F sp0 fi = Some f"
    and rest: "obs_loop F labels vols Vc cols (Some f) (acc @ [f]) = Inr fs"
    by (auto split: sum.splits option.splits)
  note ih = Cons.IH [OF rest]
  from ih have l: "length fs = length acc + length (col # cols)" by simp
  from ih have tk: "take (Suc (length acc)) fs = acc @ [f]" by simp
  have "take (length acc) (take (Suc (length acc)) fs) = take (length acc) fs"
    by (simp add: min_def)
  with tk have tk': "take (length acc) fs = acc"
    by simp
  have "take (Suc (length acc)) fs ! length acc = fs ! length acc"
    by simp
  with tk have at: "fs ! length acc = f"
    by simp
  have "\<exists>sp. contributors F labels vols Vc (snd ((col # cols) ! i)) = Inr sp \<and>
        Some (fs ! (length acc + i)) =
          obs_formula F sp (if i = 0 then fi else Some (fs ! (length acc + i - 1)))"
    if i: "i < length (col # cols)" for i
  proof (cases i)
    case 0
    then show ?thesis by (simp add: col f at c0)
  next
    case (Suc i')
    with i have i': "i' < length cols" by simp
    from ih i' obtain sp where "contributors F labels vols Vc (snd (cols ! i')) = Inr sp"
      and "Some (fs ! (length (acc @ [f]) + i')) =
          obs_formula F sp (if i' = 0 then Some f else Some (fs ! (length (acc @ [f]) + i' - 1)))"
      by blast
    then show ?thesis
      using Suc at by (cases i') auto
  qed
  with l tk' show ?case by blast
qed

text \<open>
  Where the table of the observables lists the species in the order of the species
  table, each once, the label of a row names the species whose volume the row uses.
\<close>

lemma find_distinct:
  "distinct (map f xs) \<Longrightarrow> p < length xs \<Longrightarrow> find (\<lambda>x. f x = f (xs ! p)) xs = Some (xs ! p)"
proof (induction xs arbitrary: p)
  case Nil
  then show ?case by simp
next
  case (Cons x xs)
  show ?case
  proof (cases p)
    case 0
    then show ?thesis by simp
  next
    case (Suc q)
    with Cons.prems have q: "q < length xs" and d: "distinct (map f xs)" and n: "f x \<notin> f ` set xs"
      by simp_all
    from q have "f (xs ! q) \<in> f ` set xs" by simp
    with n have "f x \<noteq> f (xs ! q)" by auto
    with Cons.IH [OF d q] Suc show ?thesis by simp
  qed
qed

lemma species_compartment_spec_nth:
  assumes cs: "try_map (\<lambda>row. index row 1) (drop 1 species_sheet) = Inr comps"
    and d: "distinct (map (\<lambda>row. row ! 0) (drop 1 species_sheet))"
    and p: "p < length species_sheet - 1"
  shows "species_compartment_spec species_sheet (species_sheet ! (p + 1) ! 0)
           = Some (species_sheet ! (p + 1) ! 1)"
proof -
  let ?rows = "drop 1 species_sheet"
  from try_map_Inr [OF cs] have "\<forall>k < length ?rows. index (?rows ! k) 1 = Inr (comps ! k)"
    by simp
  then have long: "\<forall>k < length ?rows. 1 < length (?rows ! k)"
    by (auto simp: index_def nth_opt_def split: if_splits)
  then have "\<forall>row \<in> set ?rows. 1 < length row"
    by (auto simp: in_set_conv_nth simp del: length_drop)
  then have "find (\<lambda>row. nth_opt row 0 = Some (?rows ! p ! 0)) ?rows
      = find (\<lambda>row. row ! 0 = ?rows ! p ! 0) ?rows"
    by (intro find_cong) (auto simp: nth_opt_def)
  also from d p have "\<dots> = Some (?rows ! p)"
    by (intro find_distinct) simp_all
  finally have "species_compartment_spec species_sheet (?rows ! p ! 0) = nth_opt (?rows ! p) 1"
    by (simp add: species_compartment_spec_def)
  moreover from long p have "nth_opt (?rows ! p) 1 = Some (?rows ! p ! 1)"
    by (simp add: nth_opt_def)
  ultimately show ?thesis
    using p by (simp add: add.commute)
qed

text \<open>
  C3 (as the code has it). In a successful run of the observable builder, the formula
  of every column with at least one row of positive weight is the sum, written with
  \<open>+\<close>, of one term per such row, in row order: the label of the row, \<open>*\<close>, and the
  number \<open>(volume / Vc) * weight\<close>, where \<open>volume\<close> is the volume of the compartment of
  the species in the same position of the species table and \<open>Vc\<close> the volume of the
  cytoplasm. For a single contributor this is the one term; the branches for one, two
  and more contributors give the text of this one sum. Where the rows of the table of
  the observables are labelled with the species of the species table, in the same
  order and each once, this is the formula of the specification: every term is made
  from the volume of the compartment of the species that the label names.
\<close>

theorem observable_formula:
  assumes "observables F compartment_sheet species_sheet ObsMat = Inr obs"
  shows "\<exists>Vc vols.
     cytoplasm_volume F compartment_sheet = Inr Vc \<and>
     length vols = length species_sheet - 1 \<and>
     (\<forall>k < length vols.
        species_volume F compartment_sheet (species_sheet ! (k + 1) ! 1) = Inr (vols ! k)) \<and>
     map fst obs = map fst (obs_columns ObsMat) \<and>
     (\<forall>i < length (obs_columns ObsMat). \<forall>w ids.
        w = snd (obs_columns ObsMat ! i) \<longrightarrow>
        ids = filter (\<lambda>p. fl_pos F (w ! p)) [0 ..< length w] \<longrightarrow>
        ids \<noteq> [] \<longrightarrow>
          (\<forall>p \<in> set ids. p < length vols) \<and>
          snd (obs ! i) =
            join ''+'' (map (\<lambda>p. obs_index ObsMat ! p @ ''*''
                          @ fl_str F (fl_mul F (fl_div F (vols ! p) Vc) (w ! p))) ids) \<and>
          (\<forall>p. ids = [p] \<longrightarrow>
             snd (obs ! i) = obs_index ObsMat ! p @ ''*''
                          @ fl_str F (fl_mul F (fl_div F (vols ! p) Vc) (w ! p))) \<and>
          (obs_index ObsMat = map (\<lambda>row. row ! 0) (drop 1 species_sheet) \<and>
           distinct (obs_index ObsMat) \<longrightarrow>
             obs_formula_spec F compartment_sheet species_sheet Vc (obs_index ObsMat) w
               = Some (snd (obs ! i))))"
proof -
  let ?labels = "obs_index ObsMat"
  from assms obtain Vc vols fs where Vc: "cytoplasm_volume F compartment_sheet = Inr Vc"
    and vols: "Vol_species F compartment_sheet species_sheet = Inr vols"
    and loop: "obs_loop F ?labels vols Vc (obs_columns ObsMat) None [] = Inr fs"
    and obs: "obs = zip (map fst (obs_columns ObsMat)) fs"
    unfolding observables_def by (auto simp: bind_err_Inr)
  from vols obtain cs where cs: "try_map (\<lambda>row. index row 1) (drop 1 species_sheet) = Inr cs"
    and vs: "try_map (species_volume F compartment_sheet) cs = Inr vols"
    unfolding Vol_species_def by (auto simp: bind_err_Inr)
  from try_map_Inr [OF cs]
  have lc: "length cs = length species_sheet - 1"
    and ec: "\<forall>k < length cs. index (species_sheet ! (k + 1)) 1 = Inr (cs ! k)"
    by simp_all
  from ec have ec': "\<forall>k < length cs. cs ! k = species_sheet ! (k + 1) ! 1"
    by (auto simp: index_def nth_opt_def split: if_splits)
  from try_map_Inr [OF vs] lc ec'
  have lv: "length vols = length species_sheet - 1"
    and each: "\<forall>k < length vols.
        species_volume F compartment_sheet (species_sheet ! (k + 1) ! 1) = Inr (vols ! k)"
    by simp_all
  note l = obs_loop_Inr [OF loop]
  from l have lf: "length fs = length (obs_columns ObsMat)" by simp
  with obs have names: "map fst obs = map fst (obs_columns ObsMat)"
    by simp
  have main: "(\<forall>p \<in> set ids. p < length vols) \<and>
          snd (obs ! i) =
            join ''+'' (map (\<lambda>p. ?labels ! p @ ''*''
                          @ fl_str F (fl_mul F (fl_div F (vols ! p) Vc) (w ! p))) ids) \<and>
          (\<forall>p. ids = [p] \<longrightarrow>
             snd (obs ! i) = ?labels ! p @ ''*''
                          @ fl_str F (fl_mul F (fl_div F (vols ! p) Vc) (w ! p))) \<and>
          (?labels = map (\<lambda>row. row ! 0) (drop 1 species_sheet) \<and> distinct ?labels \<longrightarrow>
             obs_formula_spec F compartment_sheet species_sheet Vc ?labels w = Some (snd (obs ! i)))"
    if i: "i < length (obs_columns ObsMat)"
      and w: "w = snd (obs_columns ObsMat ! i)"
      and ids: "ids = filter (\<lambda>p. fl_pos F (w ! p)) [0 ..< length w]"
      and ne: "ids \<noteq> []" for i w ids
  proof -
    let ?tm = "\<lambda>p. ?labels ! p @ ''*'' @ fl_str F (fl_mul F (fl_div F (vols ! p) Vc) (w ! p))"
    from ids have ids': "ids = sp_obs_id F w"
      by (simp add: sp_obs_id_def)
    from l i w obtain sp where c: "contributors F ?labels vols Vc w = Inr sp"
      and s: "Some (fs ! i) = obs_formula F sp (if i = 0 then None else Some (fs ! (i - 1)))"
      by force
    note c2 = contributors_Inr(2) [OF c, folded ids']
    note c3 = contributors_Inr(3) [OF c, folded ids']
    from c2 have bound: "\<forall>p \<in> set ids. p < length vols"
      by simp
    from c3 ne have "sp \<noteq> []" by simp
    from s obs_formula_join [OF this] have "fs ! i = join ''+'' (map (obs_term F) sp)"
      by simp
    also have "map (obs_term F) sp = map ?tm ids"
      unfolding c3 by (simp add: obs_term_def comp_def)
    finally have a: "snd (obs ! i) = join ''+'' (map ?tm ids)"
      using i lf by (simp add: obs)
    have b: "\<forall>p. ids = [p] \<longrightarrow> snd (obs ! i) = ?tm p"
      using a by simp
    have d: "obs_formula_spec F compartment_sheet species_sheet Vc ?labels w = Some (snd (obs ! i))"
      if lab: "?labels = map (\<lambda>row. row ! 0) (drop 1 species_sheet)" and dist: "distinct ?labels"
    proof -
      have t: "obs_term_spec F compartment_sheet species_sheet Vc (?labels ! p) (w ! p) = Some (?tm p)"
        if p: "p \<in> set ids" for p
      proof -
        from bound p lv have p': "p < length species_sheet - 1" by simp
        then have lp: "?labels ! p = species_sheet ! (p + 1) ! 0"
          by (simp add: lab add.commute)
        from dist have "distinct (map (\<lambda>row. row ! 0) (drop 1 species_sheet))"
          by (simp add: lab)
        from species_compartment_spec_nth [OF cs this p']
        have "species_compartment_spec species_sheet (?labels ! p) = Some (species_sheet ! (p + 1) ! 1)"
          by (simp add: lp)
        moreover from each p' lv
        have "species_volume F compartment_sheet (species_sheet ! (p + 1) ! 1) = Inr (vols ! p)"
          by simp
        ultimately show ?thesis
          by (simp add: obs_term_spec_def)
      qed
      then have m: "map (\<lambda>p. obs_term_spec F compartment_sheet species_sheet Vc (?labels ! p) (w ! p)) ids
          = map (\<lambda>p. Some (?tm p)) ids"
        by simp
      have "obs_formula_spec F compartment_sheet species_sheet Vc ?labels w =
          (let ts = map (\<lambda>p. Some (?tm p)) ids
           in if list_all (\<lambda>t. t \<noteq> None) ts then Some (join ''+'' (map the ts)) else None)"
        unfolding obs_formula_spec_def ids [symmetric] m ..
      also have "\<dots> = Some (join ''+'' (map ?tm ids))"
        by (simp add: list_all_iff comp_def)
      finally show ?thesis
        by (simp only: a)
    qed
    from bound a b d show ?thesis by blast
  qed
  from Vc lv each names main show ?thesis by blast
qed

text \<open>
  C10 (as the code has it). For a column without a row of positive weight no branch
  assigns \<open>formula_i\<close>. In a loop that ends without error such a column is never the
  first one, and the formula appended for it is the one appended for the column
  before. If the first column is such a column, the loop raises NameError when the
  column has one row for every species, or one row only; for another number of rows
  the multiplication of line 297 raises ValueError before.
\<close>

theorem observable_without_contributors:
  "((\<forall>w \<in> set weights. \<not> fl_pos F w) \<and> (length weights = length vols \<or> length weights = 1) \<longrightarrow>
      contributors F labels vols Vc weights = Inr [] \<and> obs_formula F [] formula_i = formula_i) \<and>
   (obs_loop F labels vols Vc cols None [] = Inr formula_obs \<longrightarrow>
      length formula_obs = length cols \<and>
      (\<forall>i < length cols. (\<forall>w \<in> set (snd (cols ! i)). \<not> fl_pos F w) \<longrightarrow>
         0 < i \<and> formula_obs ! i = formula_obs ! (i - 1))) \<and>
   ((\<forall>w \<in> set weights. \<not> fl_pos F w) \<longrightarrow>
      obs_loop F labels vols Vc ((obs, weights) # cols) None [] =
        (if length weights = length vols \<or> length weights = 1 then Inl NameError
         else Inl ValueError))"
proof (intro conjI impI)
  assume "(\<forall>w \<in> set weights. \<not> fl_pos F w) \<and> (length weights = length vols \<or> length weights = 1)"
  then show "contributors F labels vols Vc weights = Inr []"
    by (simp add: contributors_none)
next
  show "obs_formula F [] formula_i = formula_i"
    by (rule obs_formula_empty)
next
  assume loop: "obs_loop F labels vols Vc cols None [] = Inr formula_obs"
  from obs_loop_Inr [OF loop] show "length formula_obs = length cols"
    by simp
next
  assume loop: "obs_loop F labels vols Vc cols None [] = Inr formula_obs"
  note l = obs_loop_Inr [OF loop]
  show "\<forall>i < length cols. (\<forall>w \<in> set (snd (cols ! i)). \<not> fl_pos F w) \<longrightarrow>
         0 < i \<and> formula_obs ! i = formula_obs ! (i - 1)"
  proof (intro allI impI)
    fix i assume i: "i < length cols"
      and e: "\<forall>w \<in> set (snd (cols ! i)). \<not> fl_pos F w"
    from l i obtain sp where c: "contributors F labels vols Vc (snd (cols ! i)) = Inr sp"
      and s: "Some (formula_obs ! i) =
        obs_formula F sp (if i = 0 then None else Some (formula_obs ! (i - 1)))"
      by force
    from c contributors_none [OF e, of labels vols Vc] have "sp = []"
      by (simp split: if_splits)
    with s show "0 < i \<and> formula_obs ! i = formula_obs ! (i - 1)"
      by (cases "i = 0") (simp_all add: obs_formula_empty)
  qed
next
  assume e: "\<forall>w \<in> set weights. \<not> fl_pos F w"
  show "obs_loop F labels vols Vc ((obs, weights) # cols) None [] =
        (if length weights = length vols \<or> length weights = 1 then Inl NameError
         else Inl ValueError)"
    by (simp add: contributors_none [OF e] obs_formula_empty)
qed

lemma ex_volumes:
  "cytoplasm_volume int_floats ex_compartments = Inr (Num 5)"
  "Vol_species int_floats ex_compartments ex_species = Inr [Num 5, Num 10, Num 10]"
  by (simp_all add: cytoplasm_volume_def Vol_species_def species_volume_def volumes_named_def
      index_def nth_opt_def ex_compartments_def ex_species_def rectangular_def np_double_def text_eval)

lemmas obs_eval = contributors_def sp_obs_id_def Vf_def index_def nth_opt_def

lemma ex_contributors:
  "contributors int_floats [''A'', ''B'', ''C''] [Num 5, Num 10, Num 10] (Num 5) [Num 1, Num 0, Num 0]
     = Inr [(''A'', Num 1)]"
  "contributors int_floats [''A'', ''B'', ''C''] [Num 5, Num 10, Num 10] (Num 5) [Num 0, Num 0, Num 0]
     = Inr []"
  "contributors int_floats [''A'', ''B'', ''C''] [Num 5, Num 10, Num 10] (Num 5) [Num 1, Num 2, Num 3]
     = Inr [(''A'', Num 1), (''B'', Num 4), (''C'', Num 6)]"
  by (simp_all add: obs_eval)

lemma ex_terms:
  "obs_term int_floats (''A'', Num 1) = ''A*1''"
  "obs_term int_floats (''B'', Num 4) = ''B*4''"
  "obs_term int_floats (''C'', Num 6) = ''C*6''"
  by (simp_all add: obs_term_def str_int_def text_eval)

lemma ex_obs_loop:
  "obs_loop int_floats [''A'', ''B'', ''C''] [Num 5, Num 10, Num 10] (Num 5)
       [(''o1'', [Num 1, Num 0, Num 0]), (''o2'', [Num 0, Num 0, Num 0]), (''o3'', [Num 1, Num 2, Num 3])]
       None []
     = Inr [''A*1'', ''A*1'', ''A*1+B*4+C*6'']"
  by (simp add: ex_contributors obs_formula_def ex_terms)

lemma ex_observables:
  "observables int_floats ex_compartments ex_species ex_obsmat
     = Inr [(''o1'', ''A*1''), (''o2'', ''A*1''), (''o3'', ''A*1+B*4+C*6'')]"
  unfolding observables_def ex_volumes
  using ex_obs_loop by (simp add: ex_obsmat_def)

theorem observable_formula_witness:
  "observables int_floats ex_compartments ex_species ex_obsmat
     = Inr [(''o1'', ''A*1''), (''o2'', ''A*1''), (''o3'', ''A*1+B*4+C*6'')] \<and>
   (\<exists>Vc vols.
     cytoplasm_volume int_floats ex_compartments = Inr Vc \<and>
     length vols = length ex_species - 1 \<and>
     (\<forall>k < length vols.
        species_volume int_floats ex_compartments (ex_species ! (k + 1) ! 1) = Inr (vols ! k)) \<and>
     map fst [(''o1'', ''A*1''), (''o2'', ''A*1''), (''o3'', ''A*1+B*4+C*6'')]
       = map fst (obs_columns ex_obsmat) \<and>
     (\<forall>i < length (obs_columns ex_obsmat). \<forall>w ids.
        w = snd (obs_columns ex_obsmat ! i) \<longrightarrow>
        ids = filter (\<lambda>p. fl_pos int_floats (w ! p)) [0 ..< length w] \<longrightarrow>
        ids \<noteq> [] \<longrightarrow>
          (\<forall>p \<in> set ids. p < length vols) \<and>
          snd ([(''o1'', ''A*1''), (''o2'', ''A*1''), (''o3'', ''A*1+B*4+C*6'')] ! i) =
            join ''+'' (map (\<lambda>p. obs_index ex_obsmat ! p @ ''*''
                          @ fl_str int_floats (fl_mul int_floats (fl_div int_floats (vols ! p) Vc) (w ! p))) ids) \<and>
          (\<forall>p. ids = [p] \<longrightarrow>
             snd ([(''o1'', ''A*1''), (''o2'', ''A*1''), (''o3'', ''A*1+B*4+C*6'')] ! i)
               = obs_index ex_obsmat ! p @ ''*''
                          @ fl_str int_floats (fl_mul int_floats (fl_div int_floats (vols ! p) Vc) (w ! p))) \<and>
          (obs_index ex_obsmat = map (\<lambda>row. row ! 0) (drop 1 ex_species) \<and>
           distinct (obs_index ex_obsmat) \<longrightarrow>
             obs_formula_spec int_floats ex_compartments ex_species Vc (obs_index ex_obsmat) w
               = Some (snd ([(''o1'', ''A*1''), (''o2'', ''A*1''), (''o3'', ''A*1+B*4+C*6'')] ! i))))) \<and>
   obs_index ex_obsmat = map (\<lambda>row. row ! 0) (drop 1 ex_species) \<and>
   distinct (obs_index ex_obsmat) \<and>
   filter (\<lambda>p. fl_pos int_floats (snd (obs_columns ex_obsmat ! 2) ! p))
     [0 ..< length (snd (obs_columns ex_obsmat ! 2))] = [0, 1, 2]"
proof -
  have a: "obs_index ex_obsmat = map (\<lambda>row. row ! 0) (drop 1 ex_species)"
    "distinct (obs_index ex_obsmat)"
    by (simp_all add: ex_obsmat_def ex_species_def)
  have b: "filter (\<lambda>p. fl_pos int_floats (snd (obs_columns ex_obsmat ! 2) ! p))
     [0 ..< length (snd (obs_columns ex_obsmat ! 2))] = [0, 1, 2]"
    by (simp add: ex_obsmat_def)
  from observable_formula [OF ex_observables] ex_observables a b show ?thesis
    by blast
qed

text \<open>
  C3 as stated fails where the rows of the table of the observables are not in the
  order of the species table. The first row is labelled \<open>B\<close>, a species of the nucleus
  (volume 10, the cytoplasm having 5), with weight 1: the code writes \<open>B*1\<close>, made from
  the volume of the compartment of the first species, \<open>A\<close>; the formula of the
  specification is \<open>B*2\<close>.
\<close>

theorem observable_row_order_counterexample:
  "observables int_floats ex_compartments ex_species ex_obsmat_reordered = Inr [(''o1'', ''B*1'')] \<and>
   cytoplasm_volume int_floats ex_compartments = Inr (Num 5) \<and>
   obs_formula_spec int_floats ex_compartments ex_species (Num 5) (obs_index ex_obsmat_reordered)
       (snd (obs_columns ex_obsmat_reordered ! 0))
     = Some ''B*2''"
proof -
  have "contributors int_floats [''B'', ''A'', ''C''] [Num 5, Num 10, Num 10] (Num 5) [Num 1, Num 0, Num 0]
     = Inr [(''B'', Num 1)]"
    by (simp add: obs_eval)
  moreover have "obs_term int_floats (''B'', Num 1) = ''B*1''"
    by (simp add: obs_term_def str_int_def text_eval)
  ultimately have "observables int_floats ex_compartments ex_species ex_obsmat_reordered
      = Inr [(''o1'', ''B*1'')]"
    unfolding observables_def ex_volumes by (simp add: ex_obsmat_reordered_def obs_formula_def)
  moreover have "obs_formula_spec int_floats ex_compartments ex_species (Num 5)
       (obs_index ex_obsmat_reordered) (snd (obs_columns ex_obsmat_reordered ! 0)) = Some ''B*2''"
    by (simp add: obs_formula_spec_def obs_term_spec_def species_compartment_spec_def
        species_volume_def volumes_named_def rectangular_def np_double_def ex_obsmat_reordered_def
        ex_compartments_def ex_species_def str_int_def text_eval)
  ultimately show ?thesis
    using ex_volumes(1) by simp
qed

theorem observable_without_contributors_witness:
  "\<not> fl_pos int_floats (Num 0) \<and>
   contributors int_floats [''A'', ''B'', ''C''] [Num 5, Num 10, Num 10] (Num 5) [Num 0, Num 0, Num 0]
     = Inr [] \<and>
   obs_formula int_floats [] (Some ''A*1'') = Some ''A*1'' \<and>
   obs_loop int_floats [''A'', ''B'', ''C''] [Num 5, Num 10, Num 10] (Num 5)
       [(''o1'', [Num 1, Num 0, Num 0]), (''o2'', [Num 0, Num 0, Num 0]), (''o3'', [Num 1, Num 2, Num 3])]
       None []
     = Inr [''A*1'', ''A*1'', ''A*1+B*4+C*6''] \<and>
   [''A*1'', ''A*1'', ''A*1+B*4+C*6''] ! 1 = [''A*1'', ''A*1'', ''A*1+B*4+C*6''] ! (1 - 1) \<and>
   obs_loop int_floats [''A'', ''B'', ''C''] [Num 5, Num 10, Num 10] (Num 5)
       ((''o2'', [Num 0, Num 0, Num 0]) # [(''o3'', [Num 1, Num 2, Num 3])]) None []
     = Inl NameError \<and>
   obs_loop int_floats [''A''] [Num 5, Num 10, Num 10] (Num 5) [(''o2'', [Num 0])] None []
     = Inl NameError"
proof -
  let ?L = "[''A'', ''B'', ''C'']" and ?V = "[Num 5, Num 10, Num 10]"
  let ?cols = "[(''o1'', [Num 1, Num 0, Num 0]), (''o2'', [Num 0, Num 0, Num 0]),
      (''o3'', [Num 1, Num 2, Num 3])]"
  note t = observable_without_contributors [of "[Num 0, Num 0, Num 0]" int_floats ?V ?L "Num 5"
      "Some ''A*1''" ?cols "[''A*1'', ''A*1'', ''A*1+B*4+C*6'']"]
  note t' = observable_without_contributors [of "[Num 0, Num 0, Num 0]" int_floats ?V ?L "Num 5"
      _ "[(''o3'', [Num 1, Num 2, Num 3])]" _ "''o2''"]
  note t'' = observable_without_contributors [of "[Num 0]" int_floats ?V "[''A'']" "Num 5"
      _ "[]" _ "''o2''"]
  have z: "\<forall>w \<in> set [Num 0, Num 0, Num 0]. \<not> fl_pos int_floats w"
    by simp
  have z1: "\<forall>w \<in> set [Num 0]. \<not> fl_pos int_floats w"
    by simp
  have len: "length [Num 0, Num 0, Num (0 :: int)] = length ?V \<or> length [Num 0, Num 0, Num (0 :: int)] = 1"
    by simp
  from t z len have a: "contributors int_floats ?L ?V (Num 5) [Num 0, Num 0, Num 0] = Inr []"
    "obs_formula int_floats [] (Some ''A*1'') = Some ''A*1''"
    by blast+
  from t ex_obs_loop have "\<forall>i < length ?cols.
      (\<forall>w \<in> set (snd (?cols ! i)). \<not> fl_pos int_floats w) \<longrightarrow>
        0 < i \<and> [''A*1'', ''A*1'', ''A*1+B*4+C*6''] ! i = [''A*1'', ''A*1'', ''A*1+B*4+C*6''] ! (i - 1)"
    by blast
  from this [rule_format, of 1]
  have b: "[''A*1'', ''A*1'', ''A*1+B*4+C*6''] ! 1 = [''A*1'', ''A*1'', ''A*1+B*4+C*6''] ! (1 - 1)"
    by simp
  from t' z have "obs_loop int_floats ?L ?V (Num 5)
       ((''o2'', [Num 0, Num 0, Num 0]) # [(''o3'', [Num 1, Num 2, Num 3])]) None [] =
       (if length [Num 0, Num 0, Num (0 :: int)] = length ?V \<or> length [Num 0, Num 0, Num (0 :: int)] = 1
        then Inl NameError else Inl ValueError)"
    by blast
  then have c: "obs_loop int_floats ?L ?V (Num 5)
       ((''o2'', [Num 0, Num 0, Num 0]) # [(''o3'', [Num 1, Num 2, Num 3])]) None [] = Inl NameError"
    by simp
  from t'' z1 have "obs_loop int_floats [''A''] ?V (Num 5) [(''o2'', [Num 0])] None [] =
       (if length [Num (0 :: int)] = length ?V \<or> length [Num (0 :: int)] = 1
        then Inl NameError else Inl ValueError)"
    by blast
  then have d: "obs_loop int_floats [''A''] ?V (Num 5) [(''o2'', [Num 0])] None [] = Inl NameError"
    by simp
  have z0: "\<not> fl_pos int_floats (Num 0)"
    by simp
  from z0 a ex_obs_loop b c d show ?thesis
    by blast
qed

text \<open>
  C10 as stated fails where the table of the observables has neither one row for every
  species nor a single row: with two rows for three species and no positive weight in
  the first column, the run ends with ValueError, raised by the multiplication, and not
  with NameError.
\<close>

theorem observable_short_table_counterexample:
  "fl_pos int_floats (Num 0) = False \<and>
   snd (obs_columns ex_obsmat_short ! 0) = [Num 0, Num 0] \<and>
   observables int_floats ex_compartments ex_species ex_obsmat_short = Inl ValueError \<and>
   observables int_floats ex_compartments ex_species ex_obsmat_short \<noteq> Inl NameError"
proof -
  have "observables int_floats ex_compartments ex_species ex_obsmat_short = Inl ValueError"
    unfolding observables_def ex_volumes
    by (simp add: ex_obsmat_short_def obs_eval)
  then show ?thesis
    by (simp add: ex_obsmat_short_def)
qed

section \<open>Properties of the annotation\<close>

lemma annot_loop_eq:
  "annot_loop cells Annot =
     Annot @ concat (map (\<lambda>c. '' '' @ c) (takeWhile (\<lambda>c. strip c \<noteq> ''nan'' \<and> strip c \<noteq> []) cells))"
  by (induction cells arbitrary: Annot) auto

lemma find_snoc:
  "find P (xs @ [x]) = (case find P xs of Some y \<Rightarrow> Some y | None \<Rightarrow> if P x then Some x else None)"
  by (induction xs) auto

lemma annotate_species_step:
  assumes "annotate_species (row # rows) doc = Inr doc'"
  obtains sid old where "nth_opt row 0 = Some sid" "species_annotation doc sid = Some old"
    "annotate_species rows
       (doc\<lparr>species_annotation := (species_annotation doc)(sid \<mapsto> species_annot row)\<rparr>) = Inr doc'"
  using assms by (auto split: option.splits)

lemma annotate_species_other:
  "annotate_species rows doc = Inr doc' \<Longrightarrow> compartment_annotation doc' = compartment_annotation doc"
proof (induction rows arbitrary: doc)
  case Nil
  then show ?case by simp
next
  case (Cons row rows)
  from Cons.prems show ?case
    by (rule annotate_species_step) (use Cons.IH in force)
qed

lemma annotate_species_keys:
  "annotate_species rows doc = Inr doc' \<Longrightarrow>
     (species_annotation doc' sid = None) = (species_annotation doc sid = None)"
proof (induction rows arbitrary: doc)
  case Nil
  then show ?case by simp
next
  case (Cons row rows)
  from Cons.prems show ?case
  proof (rule annotate_species_step)
    fix s old
    assume s: "species_annotation doc s = Some old"
      and rest: "annotate_species rows
         (doc\<lparr>species_annotation := (species_annotation doc)(s \<mapsto> species_annot row)\<rparr>) = Inr doc'"
    from Cons.IH [OF rest] s show ?thesis
      by (cases "sid = s") simp_all
  qed
qed

lemma annotate_species_ids:
  "annotate_species rows doc = Inr doc' \<Longrightarrow> row \<in> set rows \<Longrightarrow>
     \<exists>sid. nth_opt row 0 = Some sid \<and> species_annotation doc sid \<noteq> None"
proof (induction rows arbitrary: doc)
  case Nil
  then show ?case by simp
next
  case (Cons r rows)
  from Cons.prems(1) show ?case
  proof (rule annotate_species_step)
    fix s old
    assume r: "nth_opt r 0 = Some s" and s: "species_annotation doc s = Some old"
      and rest: "annotate_species rows
         (doc\<lparr>species_annotation := (species_annotation doc)(s \<mapsto> species_annot r)\<rparr>) = Inr doc'"
    show ?thesis
    proof (cases "row = r")
      case True
      with r s show ?thesis by simp
    next
      case False
      with Cons.prems(2) have "row \<in> set rows" by simp
      from Cons.IH [OF rest this] obtain sid where sid: "nth_opt row 0 = Some sid"
        and ne: "((species_annotation doc)(s \<mapsto> species_annot r)) sid \<noteq> None"
        by auto
      from ne s have "species_annotation doc sid \<noteq> None"
        by (cases "sid = s") simp_all
      with sid show ?thesis by blast
    qed
  qed
qed

lemma annotate_species_find:
  "annotate_species rows doc = Inr doc' \<Longrightarrow>
     species_annotation doc' sid =
       (case find (\<lambda>row. nth_opt row 0 = Some sid) (rev rows) of
          None \<Rightarrow> species_annotation doc sid
        | Some row \<Rightarrow> Some (species_annot row))"
proof (induction rows arbitrary: doc)
  case Nil
  then show ?case by simp
next
  case (Cons row rows)
  from Cons.prems show ?case
  proof (rule annotate_species_step)
    fix s old
    assume r: "nth_opt row 0 = Some s"
      and rest: "annotate_species rows
         (doc\<lparr>species_annotation := (species_annotation doc)(s \<mapsto> species_annot row)\<rparr>) = Inr doc'"
    from Cons.IH [OF rest] r show ?thesis
      by (auto simp: find_snoc split: option.splits)
  qed
qed

lemma annotate_compartments_step:
  assumes "annotate_compartments (row # rows) doc = Inr doc'"
  obtains cid old a where "nth_opt row 0 = Some cid" "compartment_annotation doc cid = Some old"
    "nth_opt row 2 = Some a"
    "annotate_compartments rows
       (doc\<lparr>compartment_annotation := (compartment_annotation doc)(cid \<mapsto> a)\<rparr>) = Inr doc'"
  using assms by (auto split: option.splits)

lemma annotate_compartments_other:
  "annotate_compartments rows doc = Inr doc' \<Longrightarrow> species_annotation doc' = species_annotation doc"
proof (induction rows arbitrary: doc)
  case Nil
  then show ?case by simp
next
  case (Cons row rows)
  from Cons.prems show ?case
    by (rule annotate_compartments_step) (use Cons.IH in force)
qed

lemma annotate_compartments_keys:
  "annotate_compartments rows doc = Inr doc' \<Longrightarrow>
     (compartment_annotation doc' cid = None) = (compartment_annotation doc cid = None)"
proof (induction rows arbitrary: doc)
  case Nil
  then show ?case by simp
next
  case (Cons row rows)
  from Cons.prems show ?case
  proof (rule annotate_compartments_step)
    fix c old a
    assume c: "compartment_annotation doc c = Some old"
      and rest: "annotate_compartments rows
         (doc\<lparr>compartment_annotation := (compartment_annotation doc)(c \<mapsto> a)\<rparr>) = Inr doc'"
    from Cons.IH [OF rest] c show ?thesis
      by (cases "cid = c") simp_all
  qed
qed

lemma annotate_compartments_ids:
  "annotate_compartments rows doc = Inr doc' \<Longrightarrow> row \<in> set rows \<Longrightarrow>
     2 < length row \<and> (\<exists>cid. nth_opt row 0 = Some cid \<and> compartment_annotation doc cid \<noteq> None)"
proof (induction rows arbitrary: doc)
  case Nil
  then show ?case by simp
next
  case (Cons r rows)
  from Cons.prems(1) show ?case
  proof (rule annotate_compartments_step)
    fix c old a
    assume r: "nth_opt r 0 = Some c" and c: "compartment_annotation doc c = Some old"
      and a: "nth_opt r 2 = Some a"
      and rest: "annotate_compartments rows
         (doc\<lparr>compartment_annotation := (compartment_annotation doc)(c \<mapsto> a)\<rparr>) = Inr doc'"
    show ?thesis
    proof (cases "row = r")
      case True
      with r c a show ?thesis by (auto simp: nth_opt_def split: if_splits)
    next
      case False
      with Cons.prems(2) have "row \<in> set rows" by simp
      from Cons.IH [OF rest this] obtain cid where len: "2 < length row"
        and cid: "nth_opt row 0 = Some cid"
        and ne: "((compartment_annotation doc)(c \<mapsto> a)) cid \<noteq> None"
        by auto
      from ne c have "compartment_annotation doc cid \<noteq> None"
        by (cases "cid = c") simp_all
      with cid len show ?thesis by blast
    qed
  qed
qed

lemma annotate_compartments_find:
  "annotate_compartments rows doc = Inr doc' \<Longrightarrow>
     compartment_annotation doc' cid =
       (case find (\<lambda>row. nth_opt row 0 = Some cid) (rev rows) of
          None \<Rightarrow> compartment_annotation doc cid
        | Some row \<Rightarrow> Some (row ! 2))"
proof (induction rows arbitrary: doc)
  case Nil
  then show ?case by simp
next
  case (Cons row rows)
  from Cons.prems show ?case
  proof (rule annotate_compartments_step)
    fix c old a
    assume r: "nth_opt row 0 = Some c" and a: "nth_opt row 2 = Some a"
      and rest: "annotate_compartments rows
         (doc\<lparr>compartment_annotation := (compartment_annotation doc)(c \<mapsto> a)\<rparr>) = Inr doc'"
    from a have "row ! 2 = a"
      by (auto simp: nth_opt_def split: if_splits)
    with Cons.IH [OF rest] r show ?thesis
      by (auto simp: find_snoc split: option.splits)
  qed
qed


lemma main_sparced_xml:
  assumes "write_model (ragged_ok E) (arith E) (files E) = Inr m"
    and "sb_loadFile E (model_text m) = 1" and "sb_writeSBMLFile E (model_text m) = 1"
    and "annotate (model_species m) (model_compartments m) (sbml_of E (model_text m)) = Inr doc'"
  shows "sparced_xml (main E) = Some doc'"
  using assms
  by (simp add: main_def after_conversion_def split: option.splits sum.splits)

text \<open>
  C7 (as the code has it). After a successful run of the annotator the annotation of a
  species is the text built from the last input row (after the header) that names it:
  the columns from the fifth on (index 4), each preceded by one blank, up to the first
  column that is empty or \<open>nan\<close> once stripped; a species that no row names keeps its
  annotation. The annotation of a compartment is the third column of the last row
  that names it. Every row names an entry of the document, and the set of entries
  does not change. In the whole run the annotated document is the one that
  SPARCED.xml holds afterwards.
\<close>

theorem annotation_overwrites:
  assumes "annotate species_sheet compartment_sheet doc = Inr doc'"
  shows "species_annotation doc' sid =
       (case find (\<lambda>row. nth_opt row 0 = Some sid) (rev (drop 1 species_sheet)) of
          None \<Rightarrow> species_annotation doc sid
        | Some row \<Rightarrow>
            Some (concat (map (\<lambda>c. '' '' @ c)
              (takeWhile (\<lambda>c. strip c \<noteq> ''nan'' \<and> strip c \<noteq> []) (drop 4 row))))) \<and>
     compartment_annotation doc' cid =
       (case find (\<lambda>row. nth_opt row 0 = Some cid) (rev (drop 1 compartment_sheet)) of
          None \<Rightarrow> compartment_annotation doc cid
        | Some row \<Rightarrow> Some (row ! 2)) \<and>
     (\<forall>row \<in> set (drop 1 species_sheet). \<exists>s. nth_opt row 0 = Some s \<and> s \<in> dom (species_annotation doc)) \<and>
     (\<forall>row \<in> set (drop 1 compartment_sheet).
        2 < length row \<and> (\<exists>c. nth_opt row 0 = Some c \<and> c \<in> dom (compartment_annotation doc))) \<and>
     dom (species_annotation doc') = dom (species_annotation doc) \<and>
     dom (compartment_annotation doc') = dom (compartment_annotation doc) \<and>
     (write_model (ragged_ok E) (arith E) (files E) = Inr m \<and>
      sb_loadFile E (model_text m) = 1 \<and> sb_writeSBMLFile E (model_text m) = 1 \<and>
      species_sheet = model_species m \<and> compartment_sheet = model_compartments m \<and>
      doc = sbml_of E (model_text m) \<longrightarrow> sparced_xml (main E) = Some doc')"
proof -
  from assms obtain d1 where sp: "annotate_species (drop 1 species_sheet) doc = Inr d1"
    and cp: "annotate_compartments (drop 1 compartment_sheet) d1 = Inr doc'"
    by (auto simp: annotate_def bind_err_Inr)
  have s1: "species_annotation doc' = species_annotation d1"
    by (rule annotate_compartments_other [OF cp])
  have c1: "compartment_annotation d1 = compartment_annotation doc"
    by (rule annotate_species_other [OF sp])
  have a: "species_annotation doc' sid =
       (case find (\<lambda>row. nth_opt row 0 = Some sid) (rev (drop 1 species_sheet)) of
          None \<Rightarrow> species_annotation doc sid
        | Some row \<Rightarrow>
            Some (concat (map (\<lambda>c. '' '' @ c)
              (takeWhile (\<lambda>c. strip c \<noteq> ''nan'' \<and> strip c \<noteq> []) (drop 4 row)))))"
    using annotate_species_find [OF sp, of sid]
    by (auto simp: s1 species_annot_def annot_loop_eq split: option.splits)
  have b: "compartment_annotation doc' cid =
       (case find (\<lambda>row. nth_opt row 0 = Some cid) (rev (drop 1 compartment_sheet)) of
          None \<Rightarrow> compartment_annotation doc cid
        | Some row \<Rightarrow> Some (row ! 2))"
    using annotate_compartments_find [OF cp, of cid] by (auto simp: c1 split: option.splits)
  have c: "\<forall>row \<in> set (drop 1 species_sheet). \<exists>s. nth_opt row 0 = Some s \<and> s \<in> dom (species_annotation doc)"
    using annotate_species_ids [OF sp] by (auto simp: dom_def)
  have d: "\<forall>row \<in> set (drop 1 compartment_sheet).
        2 < length row \<and> (\<exists>c. nth_opt row 0 = Some c \<and> c \<in> dom (compartment_annotation doc))"
    using annotate_compartments_ids [OF cp] by (auto simp: dom_def c1)
  have e: "dom (species_annotation doc') = dom (species_annotation doc)"
    using annotate_species_keys [OF sp] by (auto simp: dom_def s1)
  have f: "dom (compartment_annotation doc') = dom (compartment_annotation doc)"
    using annotate_compartments_keys [OF cp] by (auto simp: dom_def c1)
  have g: "write_model (ragged_ok E) (arith E) (files E) = Inr m \<and>
      sb_loadFile E (model_text m) = 1 \<and> sb_writeSBMLFile E (model_text m) = 1 \<and>
      species_sheet = model_species m \<and> compartment_sheet = model_compartments m \<and>
      doc = sbml_of E (model_text m) \<longrightarrow> sparced_xml (main E) = Some doc'"
    using assms main_sparced_xml [of E m doc'] by blast
  from a b c d e f g show ?thesis
    by blast
qed

lemma ex_annotate:
  "annotate ex_annot_species ex_annot_compartments ex_doc =
     Inr \<lparr>species_annotation = [''S1'' \<mapsto> '' ENS:2''],
          compartment_annotation = [''Cytoplasm'' \<mapsto> ''GO:1'']\<rparr>"
  by (simp add: annotate_def ex_annot_species_def ex_annot_compartments_def ex_doc_def
      species_annot_def nth_opt_def strip_def strip_chars_def isspace_def)

theorem annotation_overwrites_witness:
  "annotate ex_annot_species ex_annot_compartments ex_doc =
     Inr \<lparr>species_annotation = [''S1'' \<mapsto> '' ENS:2''],
          compartment_annotation = [''Cytoplasm'' \<mapsto> ''GO:1'']\<rparr> \<and>
   [''S1'' \<mapsto> '' ENS:2''] ''S1'' =
       (case find (\<lambda>row. nth_opt row 0 = Some ''S1'') (rev (drop 1 ex_annot_species)) of
          None \<Rightarrow> species_annotation ex_doc ''S1''
        | Some row \<Rightarrow>
            Some (concat (map (\<lambda>c. '' '' @ c)
              (takeWhile (\<lambda>c. strip c \<noteq> ''nan'' \<and> strip c \<noteq> []) (drop 4 row))))) \<and>
   [''Cytoplasm'' \<mapsto> ''GO:1''] ''Cytoplasm'' =
       (case find (\<lambda>row. nth_opt row 0 = Some ''Cytoplasm'') (rev (drop 1 ex_annot_compartments)) of
          None \<Rightarrow> compartment_annotation ex_doc ''Cytoplasm''
        | Some row \<Rightarrow> Some (row ! 2)) \<and>
   dom [''S1'' \<mapsto> '' ENS:2''] = dom (species_annotation ex_doc)"
proof -
  note t = annotation_overwrites [OF ex_annotate, of "''S1''" "''Cytoplasm''"]
  from t have a: "species_annotation \<lparr>species_annotation = [''S1'' \<mapsto> '' ENS:2''],
          compartment_annotation = [''Cytoplasm'' \<mapsto> ''GO:1'']\<rparr> ''S1'' =
       (case find (\<lambda>row. nth_opt row 0 = Some ''S1'') (rev (drop 1 ex_annot_species)) of
          None \<Rightarrow> species_annotation ex_doc ''S1''
        | Some row \<Rightarrow>
            Some (concat (map (\<lambda>c. '' '' @ c)
              (takeWhile (\<lambda>c. strip c \<noteq> ''nan'' \<and> strip c \<noteq> []) (drop 4 row)))))"
    by blast
  from t have b: "compartment_annotation \<lparr>species_annotation = [''S1'' \<mapsto> '' ENS:2''],
          compartment_annotation = [''Cytoplasm'' \<mapsto> ''GO:1'']\<rparr> ''Cytoplasm'' =
       (case find (\<lambda>row. nth_opt row 0 = Some ''Cytoplasm'') (rev (drop 1 ex_annot_compartments)) of
          None \<Rightarrow> compartment_annotation ex_doc ''Cytoplasm''
        | Some row \<Rightarrow> Some (row ! 2))"
    by blast
  from t have c: "dom (species_annotation \<lparr>species_annotation = [''S1'' \<mapsto> '' ENS:2''],
          compartment_annotation = [''Cytoplasm'' \<mapsto> ''GO:1'']\<rparr>) = dom (species_annotation ex_doc)"
    by blast
  have sel: "species_annotation \<lparr>species_annotation = [''S1'' \<mapsto> '' ENS:2''],
          compartment_annotation = [''Cytoplasm'' \<mapsto> ''GO:1'']\<rparr> = [''S1'' \<mapsto> '' ENS:2'']"
    "compartment_annotation \<lparr>species_annotation = [''S1'' \<mapsto> '' ENS:2''],
          compartment_annotation = [''Cytoplasm'' \<mapsto> ''GO:1'']\<rparr> = [''Cytoplasm'' \<mapsto> ''GO:1'']"
    by simp_all
  from a b c ex_annotate show ?thesis
    unfolding sel by blast
qed

text \<open>
  C7 as stated fails: the loop starts at the column with index 4, so the first column
  after name, compartment and initial value never reaches the annotation.
\<close>

theorem annotation_columns_counterexample:
  "annotation_of (annotate ex_annot_species ex_annot_compartments ex_doc) ''S1'' = Some '' ENS:2'' \<and>
   species_annot_spec (ex_annot_species ! 1) = '' HGNC:1 ENS:2''"
proof
  show "annotation_of (annotate ex_annot_species ex_annot_compartments ex_doc) ''S1'' = Some '' ENS:2''"
    using ex_annotate by (simp add: annotation_of_def)
  show "species_annot_spec (ex_annot_species ! 1) = '' HGNC:1 ENS:2''"
    by (simp add: species_annot_spec_def ex_annot_species_def strip_def strip_chars_def isspace_def)
qed

section \<open>Properties of the whole run\<close>

lemma main_Inl:
  "write_model (ragged_ok E) (arith E) (files E) = Inl e \<Longrightarrow>
     main E = \<lparr>stdout = [], status = Traceback e, sparced_xml = None\<rparr>"
  by (simp add: main_def)

lemma main_load_failed:
  "write_model (ragged_ok E) (arith E) (files E) = Inr m \<Longrightarrow> sb_loadFile E (model_text m) \<noteq> 1 \<Longrightarrow>
     main E = \<lparr>stdout = [''Failed to load antimony file''], status = Exit 1, sparced_xml = None\<rparr>"
  by (simp add: main_def)

lemma main_write_failed:
  "write_model (ragged_ok E) (arith E) (files E) = Inr m \<Longrightarrow> sb_loadFile E (model_text m) = 1 \<Longrightarrow>
   sb_writeSBMLFile E (model_text m) \<noteq> 1 \<Longrightarrow>
     main E = \<lparr>stdout = [''Success loading antimony file'', ''Failure converting antimony to SBML''],
               status = Exit 1, sparced_xml = None\<rparr>"
  by (simp add: main_def)

lemma main_converted:
  "write_model (ragged_ok E) (arith E) (files E) = Inr m \<Longrightarrow> sb_loadFile E (model_text m) = 1 \<Longrightarrow>
   sb_writeSBMLFile E (model_text m) = 1 \<Longrightarrow>
     main E = \<lparr>stdout = [''Success loading antimony file'', ''Success converting antimony to SBML''],
               status = fst (after_conversion E m),
               sparced_xml = Some (snd (after_conversion E m))\<rparr>"
  by (simp add: main_def)

lemma after_conversion_cases:
  "fst (after_conversion E m) = Completed \<or> (\<exists>e. fst (after_conversion E m) = Traceback e)"
  by (simp add: after_conversion_def split: sum.splits option.splits)

lemma after_conversion_Completed:
  "(fst (after_conversion E m) = Completed) =
     (\<exists>doc ObsMat obs.
        annotate (model_species m) (model_compartments m) (sbml_of E (model_text m)) = Inr doc \<and>
        sbml_import E = None \<and> read_obsmat E = Inr ObsMat \<and>
        observables (arith E) (model_compartments m) (model_species m) ObsMat = Inr obs \<and>
        sbml2amici E doc obs = None)"
  by (auto simp: after_conversion_def split: sum.splits option.splits)

text \<open>
  C8. The run leaves through \<open>exit(1)\<close> exactly when the model text was written and
  one of the two checked steps fails, that is, the load or, after a successful load,
  the conversion does not return 1; the line printed last is then the report of that
  failure, and a step that succeeds prints its line of success. \<open>exit\<close> is called
  with no other code. The exit status is 0 exactly when the run completes, which it
  does exactly when every stage succeeds. Every other run (an input that makes the
  synthesis raise, or a failure of the annotation, the observables or an external
  call after the conversion) ends with a stack trace and a status other than 0.
\<close>

theorem exit_status:
  "(status (main E) = Exit 1) =
     (\<exists>m. write_model (ragged_ok E) (arith E) (files E) = Inr m \<and>
          (sb_loadFile E (model_text m) \<noteq> 1 \<or> sb_writeSBMLFile E (model_text m) \<noteq> 1)) \<and>
   (\<forall>n. status (main E) = Exit n \<longrightarrow> n = 1) \<and>
   (\<forall>m. write_model (ragged_ok E) (arith E) (files E) = Inr m \<and> sb_loadFile E (model_text m) \<noteq> 1 \<longrightarrow>
      stdout (main E) = [''Failed to load antimony file'']) \<and>
   (\<forall>m. write_model (ragged_ok E) (arith E) (files E) = Inr m \<and> sb_loadFile E (model_text m) = 1 \<and>
        sb_writeSBMLFile E (model_text m) \<noteq> 1 \<longrightarrow>
      stdout (main E) = [''Success loading antimony file'', ''Failure converting antimony to SBML'']) \<and>
   (\<forall>m. write_model (ragged_ok E) (arith E) (files E) = Inr m \<and> sb_loadFile E (model_text m) = 1 \<and>
        sb_writeSBMLFile E (model_text m) = 1 \<longrightarrow>
      stdout (main E) = [''Success loading antimony file'', ''Success converting antimony to SBML''] \<and>
      status (main E) \<noteq> Exit 1) \<and>
   (\<forall>e. write_model (ragged_ok E) (arith E) (files E) = Inl e \<longrightarrow>
      stdout (main E) = [] \<and> status (main E) = Traceback e) \<and>
   (status (main E) = Completed) =
     (\<exists>m doc ObsMat obs.
        write_model (ragged_ok E) (arith E) (files E) = Inr m \<and>
        sb_loadFile E (model_text m) = 1 \<and> sb_writeSBMLFile E (model_text m) = 1 \<and>
        annotate (model_species m) (model_compartments m) (sbml_of E (model_text m)) = Inr doc \<and>
        sbml_import E = None \<and> read_obsmat E = Inr ObsMat \<and>
        observables (arith E) (model_compartments m) (model_species m) ObsMat = Inr obs \<and>
        sbml2amici E doc obs = None) \<and>
   (exit_code (status (main E)) = 0) = (status (main E) = Completed) \<and>
   (status (main E) \<noteq> Completed \<and> status (main E) \<noteq> Exit 1 \<longrightarrow>
      (\<exists>e. status (main E) = Traceback e))"
proof -
  consider (raise) e where "write_model (ragged_ok E) (arith E) (files E) = Inl e"
    | (load) m where "write_model (ragged_ok E) (arith E) (files E) = Inr m"
        "sb_loadFile E (model_text m) \<noteq> 1"
    | (conv) m where "write_model (ragged_ok E) (arith E) (files E) = Inr m"
        "sb_loadFile E (model_text m) = 1" "sb_writeSBMLFile E (model_text m) \<noteq> 1"
    | (rest) m where "write_model (ragged_ok E) (arith E) (files E) = Inr m"
        "sb_loadFile E (model_text m) = 1" "sb_writeSBMLFile E (model_text m) = 1"
    by (cases "write_model (ragged_ok E) (arith E) (files E)") blast+
  then show ?thesis
  proof cases
    case raise
    then show ?thesis
      by (simp add: main_Inl)
  next
    case load
    then show ?thesis
      by (simp add: main_load_failed [OF load])
  next
    case conv
    then show ?thesis
      by (simp add: main_write_failed [OF conv])
  next
    case rest
    from after_conversion_cases [of E m] have ne: "fst (after_conversion E m) \<noteq> Exit n" for n
      by auto
    from after_conversion_cases [of E m]
    have ec: "(exit_code (fst (after_conversion E m)) = 0) = (fst (after_conversion E m) = Completed)"
      by auto
    from after_conversion_cases [of E m]
    have tb: "fst (after_conversion E m) \<noteq> Completed \<longrightarrow> (\<exists>e. fst (after_conversion E m) = Traceback e)"
      by auto
    show ?thesis
      using rest ne ec tb after_conversion_Completed [of E m]
      by (simp add: main_converted [OF rest])
  qed
qed


lemma ex_env_fields:
  "files (ex_env rc) = ex_fs" "ragged_ok (ex_env rc) = True" "arith (ex_env rc) = int_floats"
  "sb_loadFile (ex_env rc) t = 1" "sb_writeSBMLFile (ex_env rc) t = rc" "sbml_of (ex_env rc) t = ex_sbml"
  "sbml_import (ex_env rc) = None"
  "read_obsmat (ex_env rc) = Inr \<lparr>obs_index = [''S1''], obs_columns = [(''o1'', [Num 1])]\<rparr>"
  "sbml2amici (ex_env rc) doc obs = None"
  by (simp_all add: ex_env_def)

lemma ex_model_fields:
  "model_compartments ex_model =
     [[''comp'', ''vol'', ''ann''], [''Cytoplasm'', ''5'', ''GO:1''], [''Nucleus'', ''2'', ''GO:2'']]"
  "model_species ex_model = [[''sp'', ''comp'', ''ic''], [''S1'', ''Cytoplasm'', ''100'']]"
  by (simp_all add: ex_model_def)

lemma ex_model_annotate:
  "annotate (model_species ex_model) (model_compartments ex_model) ex_sbml =
     Inr \<lparr>species_annotation = [''S1'' \<mapsto> ''''],
          compartment_annotation = [''Cytoplasm'' \<mapsto> ''GO:1'', ''Nucleus'' \<mapsto> ''GO:2'']\<rparr>"
  unfolding ex_model_fields
  by (simp add: annotate_def ex_sbml_def species_annot_def nth_opt_def)

lemma ex_model_observables:
  "observables int_floats (model_compartments ex_model) (model_species ex_model)
       \<lparr>obs_index = [''S1''], obs_columns = [(''o1'', [Num 1])]\<rparr>
     = Inr [(''o1'', ''S1*1'')]"
proof -
  have v: "cytoplasm_volume int_floats (model_compartments ex_model) = Inr (Num 5)"
    "Vol_species int_floats (model_compartments ex_model) (model_species ex_model) = Inr [Num 5]"
    unfolding ex_model_fields
    by (simp_all add: cytoplasm_volume_def Vol_species_def species_volume_def volumes_named_def
        index_def nth_opt_def rectangular_def np_double_def text_eval)
  have l: "obs_loop int_floats [''S1''] [Num 5] (Num 5) [(''o1'', [Num 1])] None [] = Inr [''S1*1'']"
    by (simp add: obs_eval obs_formula_def obs_term_def str_int_def text_eval)
  show ?thesis
    unfolding observables_def v using l by simp
qed

theorem exit_status_witness:
  "status (main (ex_env 0)) = Exit 1 \<and>
   stdout (main (ex_env 0)) = [''Success loading antimony file'', ''Failure converting antimony to SBML''] \<and>
   status (main (ex_env 1)) = Completed \<and>
   exit_code (status (main (ex_env 1))) = 0 \<and>
   stdout (main (ex_env 1)) = [''Success loading antimony file'', ''Success converting antimony to SBML'']"
proof -
  have run: "write_model (ragged_ok (ex_env rc)) (arith (ex_env rc)) (files (ex_env rc)) = Inr ex_model"
    for rc by (simp add: ex_env_fields ex_run)
  note t0 = exit_status [of "ex_env 0"]
  note t1 = exit_status [of "ex_env 1"]
  note t0_exit = t0 [THEN conjunct1]
  note t0_conv = t0 [THEN conjunct2, THEN conjunct2, THEN conjunct2, THEN conjunct1]
  note t1_lines = t1 [THEN conjunct2, THEN conjunct2, THEN conjunct2, THEN conjunct2, THEN conjunct1]
  note t1_done = t1 [THEN conjunct2, THEN conjunct2, THEN conjunct2, THEN conjunct2, THEN conjunct2,
      THEN conjunct2, THEN conjunct1]
  note t1_code = t1 [THEN conjunct2, THEN conjunct2, THEN conjunct2, THEN conjunct2, THEN conjunct2,
      THEN conjunct2, THEN conjunct2, THEN conjunct1]
  have f0: "sb_loadFile (ex_env 0) (model_text ex_model) = 1"
    "sb_writeSBMLFile (ex_env 0) (model_text ex_model) \<noteq> 1"
    by (simp_all add: ex_env_fields)
  have f1: "sb_loadFile (ex_env 1) (model_text ex_model) = 1"
    "sb_writeSBMLFile (ex_env 1) (model_text ex_model) = 1"
    by (simp_all add: ex_env_fields)
  from t0_exit run [of 0] f0 have a: "status (main (ex_env 0)) = Exit 1"
    by blast
  from t0_conv run [of 0] f0 have b: "stdout (main (ex_env 0))
      = [''Success loading antimony file'', ''Failure converting antimony to SBML'']"
    by blast
  have "annotate (model_species ex_model) (model_compartments ex_model)
        (sbml_of (ex_env 1) (model_text ex_model))
      = Inr \<lparr>species_annotation = [''S1'' \<mapsto> ''''],
          compartment_annotation = [''Cytoplasm'' \<mapsto> ''GO:1'', ''Nucleus'' \<mapsto> ''GO:2'']\<rparr>"
    by (simp add: ex_env_fields ex_model_annotate)
  moreover have "observables (arith (ex_env 1)) (model_compartments ex_model) (model_species ex_model)
       \<lparr>obs_index = [''S1''], obs_columns = [(''o1'', [Num 1])]\<rparr> = Inr [(''o1'', ''S1*1'')]"
    by (simp add: ex_env_fields ex_model_observables)
  ultimately have "\<exists>m doc ObsMat obs.
        write_model (ragged_ok (ex_env 1)) (arith (ex_env 1)) (files (ex_env 1)) = Inr m \<and>
        sb_loadFile (ex_env 1) (model_text m) = 1 \<and> sb_writeSBMLFile (ex_env 1) (model_text m) = 1 \<and>
        annotate (model_species m) (model_compartments m) (sbml_of (ex_env 1) (model_text m)) = Inr doc \<and>
        sbml_import (ex_env 1) = None \<and> read_obsmat (ex_env 1) = Inr ObsMat \<and>
        observables (arith (ex_env 1)) (model_compartments m) (model_species m) ObsMat = Inr obs \<and>
        sbml2amici (ex_env 1) doc obs = None"
    using run [of 1] f1 ex_env_fields(7) [of 1] ex_env_fields(8) [of 1] ex_env_fields(9) [of 1]
    by blast
  with t1_done have c: "status (main (ex_env 1)) = Completed"
    by simp
  with t1_code have d: "exit_code (status (main (ex_env 1))) = 0"
    by simp
  from t1_lines run [of 1] f1 have e: "stdout (main (ex_env 1))
      = [''Success loading antimony file'', ''Success converting antimony to SBML'']"
    by blast
  from a b c d e show ?thesis
    by blast
qed

end
